theory Spec2Isabelle
  imports
    Complex_Main
    "HOL-Library.AList"
    "HOL-Library.Char_ord"
    "HOL-Library.List_Lexorder"
    "HOL-Library.Sublist"
    "HOL-Library.Multiset"
begin

section \<open>Python values\<close>

subsection \<open>Numbers\<close>

text \<open>
  The program computes with Python \<open>int\<close> and \<open>float\<close> values (\<open>int | float\<close> in its
  annotations). A number is the rational it denotes. Integer arithmetic is exact. An
  arithmetic operation on floats returns the rounding of the exact result, and the
  rounding is a parameter \<open>rnd\<close> of every function below that computes with floats:
  \<^item> \<open>rnd = fl64\<close> is the program as it runs, on IEEE binary64 with round-to-nearest,
    ties to even (the exponent range is not bounded: no overflow and no subnormal
    numbers, and integers are below \<open>2 ^ 53\<close>, so that converting them is exact);
  \<^item> \<open>rnd = exact\<close> is the same program in exact arithmetic.
  A statement about the structure of a computation is proved for every \<open>rnd\<close>.
\<close>

type_synonym num = rat

text \<open>The number of binary digits of a positive integer.\<close>

function bit_length :: "int \<Rightarrow> int" where
  "bit_length k = (if k \<le> 0 then 0 else 1 + bit_length (k div 2))"
  by pat_completeness auto
termination
  by (relation "measure nat") auto

declare bit_length.simps [simp del]

definition pow2 :: "int \<Rightarrow> num" where
  "pow2 e = (if 0 \<le> e then 2 ^ nat e else 1 / 2 ^ nat (- e))"

text \<open>The binary exponent of a non-zero number: \<open>pow2 (binade x) \<le> \<bar>x\<bar> < pow2 (binade x + 1)\<close>.\<close>

definition binade :: "num \<Rightarrow> int" where
  "binade x =
     (case quotient_of \<bar>x\<bar> of (p, q) \<Rightarrow>
        (let k = bit_length p - bit_length q
         in if pow2 k \<le> \<bar>x\<bar> then k else k - 1))"

definition round_half_even :: "num \<Rightarrow> int" where
  "round_half_even x =
     (let f = \<lfloor>x\<rfloor>; r = x - of_int f
      in if r < 1 / 2 then f else if 1 / 2 < r then f + 1 else if even f then f else f + 1)"

text \<open>The nearest number with a significand of 53 binary digits, ties to even.\<close>

definition fl64 :: "num \<Rightarrow> num" where
  "fl64 x =
     (if x = 0 then 0
      else (let e = binade x - 52
            in of_int (round_half_even (x / pow2 e)) * pow2 e))"

abbreviation (input) exact :: "num \<Rightarrow> num" where
  "exact \<equiv> (\<lambda>x. x)"

text \<open>
  \<open>sum(xs)\<close> adds from the left, starting from the integer 0 (the built-in of CPython up
  to 3.11; later versions add floats with a compensated summation).
\<close>

definition py_sum :: "(num \<Rightarrow> num) \<Rightarrow> num list \<Rightarrow> num" where
  "py_sum rnd xs = foldl (\<lambda>s x. rnd (s + x)) 0 xs"

subsection \<open>Exceptions, cells and dicts\<close>

text \<open>The exceptions the modelled code can raise.\<close>

datatype error = KeyError | ZeroDivisionError

text \<open>
  The value of a worksheet cell (\<open>cell.value\<close>): empty, a boolean, an integer, a float or
  a string.
\<close>

datatype cell = CNone | CBool bool | CInt int | CFloat num | CStr string

text \<open>Python truthiness of a cell value, as tested by \<open>not date.value\<close>.\<close>

fun truthy :: "cell \<Rightarrow> bool" where
  "truthy CNone = False"
| "truthy (CBool b) = b"
| "truthy (CInt i) = (i \<noteq> 0)"
| "truthy (CFloat x) = (x \<noteq> 0)"
| "truthy (CStr s) = (s \<noteq> [])"

text \<open>
  A Python \<open>dict\<close> keeps its keys in insertion order, so it is an association list:
  \<open>map_of\<close> reads a key, \<open>AList.update\<close> assigns (in place for a present key, appended
  for a new one), \<open>AList.delete\<close> removes, \<open>AList.map_entry\<close> is an augmented assignment.
  The keys of a dict are distinct; theorems that depend on it say so.
\<close>

type_synonym ('k, 'v) dict = "('k \<times> 'v) list"

section \<open>tools.py\<close>

subsection \<open>Reference tables\<close>

text \<open>
  \<open>type_preforms\<close>: an element's record \<open>{a, b, sheet}\<close>; \<open>type_contents\<close> for the
  feedstock: a sheet's record \<open>{d, W, L, rho}\<close>, as \<open>update_preforms\<close> and
  \<open>update_feedstock\<close> build them. The bill of materials maps an item to its elements'
  piece counts.
\<close>

record preform =
  pf_a :: num
  pf_b :: num
  pf_sheet :: string

record feedstock =
  fs_d :: num
  fs_W :: num
  fs_L :: num
  fs_rho :: num

type_synonym type_contents = "(string, (string, int) dict) dict"
type_synonym type_preforms = "(string, preform) dict"
type_synonym type_feedstock = "(string, feedstock) dict"

subsection \<open>sort_nested_dict\<close>

text \<open>
  \<open>d[key] = dict(sorted(val.items()))\<close> for every key, then \<open>dict(sorted(d.items()))\<close>.
  The keys of a dict are distinct, so sorting the items sorts them by key; Python's sort
  is stable, as \<open>sort_key\<close> is. Only two levels are sorted: the values of the inner
  dicts are left as they are.
\<close>

definition sort_nested_dict ::
  "('a::linorder, ('b::linorder, 'c) dict) dict \<Rightarrow> ('a, ('b, 'c) dict) dict" where
  "sort_nested_dict d = sort_key fst (map (\<lambda>(key, val). (key, sort_key fst val)) d)"

subsection \<open>get_pps\<close>

text \<open>
  \<open>length, width = feedstock[sheet]['L'], feedstock[sheet]['W']\<close> raises \<open>KeyError\<close> for
  an unknown sheet; \<open>//\<close> is floor division, the floor of the exact quotient also on
  floats, and raises \<open>ZeroDivisionError\<close> for a zero divisor. The quotients and their
  products are integers, hence exact.
\<close>

definition get_pps :: "num \<Rightarrow> num \<Rightarrow> string \<Rightarrow> type_feedstock \<Rightarrow> error + int" where
  "get_pps a b sheet fstock =
     (case map_of fstock sheet of
        None \<Rightarrow> Inl KeyError
      | Some fs \<Rightarrow>
          (let length' = fs_L fs; width = fs_W fs
           in if a = 0 \<or> b = 0 then Inl ZeroDivisionError
              else Inr (max (\<lfloor>length' / a\<rfloor> * \<lfloor>width / b\<rfloor>)
                            (\<lfloor>length' / b\<rfloor> * \<lfloor>width / a\<rfloor>))))"

subsection \<open>get_ceil_delta, spread_delta, ceil_dict_values\<close>

definition get_ceil_delta :: "(num \<Rightarrow> num) \<Rightarrow> num \<Rightarrow> num" where
  "get_ceil_delta rnd v = rnd (of_int \<lceil>v\<rceil> - v)"

text \<open>
  The loop of \<open>spread_delta\<close> over \<open>d.items()\<close>. The loop assigns only to the key it is
  visiting, so the items still to come are the ones read before the loop. Besides the
  dict, the model returns how the loop ended and the items it never reached.
\<close>

datatype loop_exit = Absorbed | Zeroed | Exhausted

fun spread_loop ::
  "(num \<Rightarrow> num) \<Rightarrow> num \<Rightarrow> ('k \<times> num) list \<Rightarrow> ('k, num) dict \<Rightarrow>
   loop_exit \<times> ('k \<times> num) list \<times> ('k, num) dict" where
  "spread_loop rnd spread [] d = (Exhausted, [], d)"
| "spread_loop rnd spread ((key, val) # items) d =
     (let delta = get_ceil_delta rnd val
      in if spread < delta
         then (Absorbed, items, AList.map_entry key (\<lambda>x. rnd (x + spread)) d)
         else (let d' = AList.update key (of_int \<lceil>val\<rceil>) d;
                   spread' = rnd (spread - delta)
               in if spread' = 0 then (Zeroed, items, d')
                  else spread_loop rnd spread' items d'))"

text \<open>\<open>dict(sorted(d.items(), key=f))\<close>: a stable sort by the ceiling delta of the value.\<close>

definition spread_sorted :: "(num \<Rightarrow> num) \<Rightarrow> ('k, num) dict \<Rightarrow> ('k, num) dict" where
  "spread_sorted rnd d = sort_key (\<lambda>item. get_ceil_delta rnd (snd item)) d"

definition spread_run ::
  "(num \<Rightarrow> num) \<Rightarrow> ('k, num) dict \<Rightarrow> loop_exit \<times> ('k \<times> num) list \<times> ('k, num) dict" where
  "spread_run rnd d =
     (let d = spread_sorted rnd d;
          spread = get_ceil_delta rnd (py_sum rnd (map snd d))
      in spread_loop rnd spread d d)"

definition spread_delta :: "(num \<Rightarrow> num) \<Rightarrow> ('k, num) dict \<Rightarrow> ('k, num) dict" where
  "spread_delta rnd d = snd (snd (spread_run rnd d))"

definition ceil_dict_values :: "('k, num) dict \<Rightarrow> ('k, num) dict" where
  "ceil_dict_values d = map (\<lambda>(key, val). (key, of_int \<lceil>val\<rceil>)) d"

definition transformer :: "(num \<Rightarrow> num) \<Rightarrow> (string, ('k, num) dict \<Rightarrow> ('k, num) dict) dict" where
  "transformer rnd = [(''grouped'', spread_delta rnd), (''single'', ceil_dict_values)]"

subsection \<open>has_marker\<close>

text \<open>
  \<open>str.lower\<close> and \<open>str.islower\<close> on ASCII letters; every other character is uncased.
  \<open>islower\<close> holds when the string has a cased character and no uppercase one.
  \<open>word in s\<close> is the contiguous-substring test.
\<close>

definition is_upper_char :: "char \<Rightarrow> bool" where
  "is_upper_char c = (CHR ''A'' \<le> c \<and> c \<le> CHR ''Z'')"

definition is_lower_char :: "char \<Rightarrow> bool" where
  "is_lower_char c = (CHR ''a'' \<le> c \<and> c \<le> CHR ''z'')"

definition lower_char :: "char \<Rightarrow> char" where
  "lower_char c = (if is_upper_char c then char_of (of_char c + (32::nat)) else c)"

definition str_lower :: "string \<Rightarrow> string" where
  "str_lower s = map lower_char s"

definition str_islower :: "string \<Rightarrow> bool" where
  "str_islower s = (list_ex is_lower_char s \<and> \<not> list_ex is_upper_char s)"

definition has_marker :: "string \<Rightarrow> string list \<Rightarrow> bool" where
  "has_marker item tester =
     list_ex (\<lambda>word. sublist word (if str_islower word then str_lower item else item)) tester"

text \<open>
  The elements the loop of \<open>spread_delta\<close> never reaches: the walk visits every element
  when this list is empty.
\<close>

definition unvisited :: "(num \<Rightarrow> num) \<Rightarrow> ('k, num) dict \<Rightarrow> ('k \<times> num) list" where
  "unvisited rnd d = fst (snd (spread_run rnd d))"

text \<open>
  The same walk on the sorted items alone, returning the exit, the visited items with
  their new values and the items never reached. It is the loop without the dict, used to
  reason about \<open>spread_loop\<close> (lemma \<open>spread_loop_walk\<close> relates the two).
\<close>

fun walk ::
  "(num \<Rightarrow> num) \<Rightarrow> num \<Rightarrow> ('k \<times> num) list \<Rightarrow>
   loop_exit \<times> ('k \<times> num) list \<times> ('k \<times> num) list" where
  "walk rnd spread [] = (Exhausted, [], [])"
| "walk rnd spread ((key, val) # items) =
     (let delta = get_ceil_delta rnd val
      in if spread < delta then (Absorbed, [(key, rnd (val + spread))], items)
         else if rnd (spread - delta) = 0 then (Zeroed, [(key, of_int \<lceil>val\<rceil>)], items)
         else (case walk rnd (rnd (spread - delta)) items of
                 (e, done, rest) \<Rightarrow> (e, (key, of_int \<lceil>val\<rceil>) # done, rest)))"

section \<open>calcumet.py\<close>

subsection \<open>Sequencing with exceptions\<close>

text \<open>
  A \<open>for\<close> loop whose body may raise: the first exception ends the loop and is the
  result. \<open>fold_err\<close> threads a state, \<open>map_err\<close> collects results.
\<close>

fun fold_err :: "('a \<Rightarrow> 's \<Rightarrow> error + 's) \<Rightarrow> 'a list \<Rightarrow> 's \<Rightarrow> error + 's" where
  "fold_err f [] st = Inr st"
| "fold_err f (x # xs) st = (case f x st of Inl e \<Rightarrow> Inl e | Inr st' \<Rightarrow> fold_err f xs st')"

fun map_err :: "('a \<Rightarrow> error + 'b) \<Rightarrow> 'a list \<Rightarrow> error + 'b list" where
  "map_err f [] = Inr []"
| "map_err f (x # xs) =
     (case f x of
        Inl e \<Rightarrow> Inl e
      | Inr y \<Rightarrow> (case map_err f xs of Inl e \<Rightarrow> Inl e | Inr ys \<Rightarrow> Inr (y # ys)))"

subsection \<open>update_contents\<close>

text \<open>
  A row of the \<open>contents\<close> worksheet: the date cell and the cells \<open>item\<close>, \<open>elem\<close>, \<open>pcs\<close>.
  Names are strings (\<open>type_contents\<close>), \<open>None\<close> for an empty cell. The function returns
  the new values of the date cells and the updated mapping; the \<open>subitems\<close> index it also
  dumps to a file is not part of the returned mapping.
\<close>

type_synonym contents_row = "cell \<times> string option \<times> string option \<times> cell"

fun update_contents_row :: "cell \<Rightarrow> contents_row \<Rightarrow> type_contents \<Rightarrow> cell \<times> type_contents" where
  "update_contents_row now (date, item, elem, pcs) temp =
     (if truthy date then (date, temp)
      else (case (item, elem) of
              (Some item, Some elem) \<Rightarrow>
                (case pcs of
                   CNone \<Rightarrow> (CStr ''ValueError'', temp)
                 | CInt pcs \<Rightarrow>
                     if pcs > 0
                     then (now, AList.update item
                                  (AList.update elem pcs
                                     (case map_of temp item of None \<Rightarrow> [] | Some elems \<Rightarrow> elems))
                                  temp)
                     else if pcs = 0
                     then (case map_of temp item of
                             None \<Rightarrow> (CStr ''KeyError'', temp)
                           | Some elems \<Rightarrow>
                               (case map_of elems elem of
                                  None \<Rightarrow> (CStr ''KeyError'', temp)
                                | Some old \<Rightarrow>
                                    (let elems' = AList.delete elem elems
                                     in if elems' = [] then (now, AList.delete item temp)
                                        else (now, AList.update item elems' temp))))
                     else (CStr ''ValueError'', temp)
                 | _ \<Rightarrow> (CStr ''TypeError'', temp))
            | _ \<Rightarrow> (CStr ''ValueError'', temp)))"

fun update_contents :: "contents_row list \<Rightarrow> type_contents \<Rightarrow> cell \<Rightarrow> cell list \<times> type_contents" where
  "update_contents [] temp now = ([], temp)"
| "update_contents (row # ws) temp now =
     (case update_contents_row now row temp of
        (date', temp') \<Rightarrow>
          (case update_contents ws temp' now of
             (dates, temp'') \<Rightarrow> (date' # dates, temp'')))"

text \<open>The bill of materials holds only positive piece counts and no empty item.\<close>

definition wf_contents :: "type_contents \<Rightarrow> bool" where
  "wf_contents temp = list_all (\<lambda>(item, elems). elems \<noteq> [] \<and> list_all (\<lambda>(elem, pcs). 0 < pcs) elems) temp"

subsection \<open>calculate_sheets_number: aggregation\<close>

text \<open>
  A row of the \<open>demand\<close> worksheet: the date cell, the item name and the quantity cell.
  \<open>memo[elem]\<close> is the record of its three entries; \<open>temp\<close> maps a sheet to its modes, a
  mode to its \<open>Counter\<close> of fractional sheet counts per element.
\<close>

type_synonym demand_row = "cell \<times> string option \<times> cell"

record memo_entry =
  me_pps :: int
  me_demand :: int
  me_items :: "string list"

type_synonym type_temp = "(string, (string, (string, num) dict) dict) dict"
type_synonym type_memo = "(string, memo_entry) dict"

text \<open>
  The body of the loop over \<open>t.contents[item].items()\<close>. The argument of \<open>setdefault\<close> is
  evaluated before the call, so \<open>get_pps\<close> runs (and may raise) also when \<open>pps\<close> is cached.
  \<open>Counter.update\<close> stores the count of a new element as it is and adds the count of a
  present one to the stored value.
\<close>

definition process_elem ::
  "(num \<Rightarrow> num) \<Rightarrow> type_preforms \<Rightarrow> type_feedstock \<Rightarrow> string list \<Rightarrow> string \<Rightarrow> int \<Rightarrow>
   string \<times> int \<Rightarrow> type_temp \<times> type_memo \<Rightarrow> error + type_temp \<times> type_memo" where
  "process_elem rnd preforms fstock grouped item qty ep st =
     (case ep of (elem, pcs) \<Rightarrow> case st of (temp, memo) \<Rightarrow>
        (case map_of preforms elem of
           None \<Rightarrow> Inl KeyError
         | Some pf \<Rightarrow>
             (let a = pf_a pf; b = pf_b pf; sheet = pf_sheet pf
              in case get_pps a b sheet fstock of
                   Inl e \<Rightarrow> Inl e
                 | Inr new_pps \<Rightarrow>
                     (let pps = (case map_of memo elem of None \<Rightarrow> new_pps | Some me \<Rightarrow> me_pps me);
                          dem = qty * pcs
                      in if pps = 0 then Inl ZeroDivisionError
                         else
                           (let d = rnd (of_int dem / of_int pps);
                                mode = (if has_marker item grouped then ''grouped'' else ''single'');
                                sheetdict = (case map_of temp sheet of None \<Rightarrow> [] | Some sd \<Rightarrow> sd);
                                counter = (case map_of sheetdict mode of None \<Rightarrow> [] | Some c \<Rightarrow> c);
                                counter' = AList.update elem
                                  (case map_of counter elem of None \<Rightarrow> d | Some x \<Rightarrow> rnd (d + x))
                                  counter;
                                temp' = AList.update sheet (AList.update mode counter' sheetdict) temp;
                                me = (case map_of memo elem of
                                        None \<Rightarrow> \<lparr>me_pps = pps, me_demand = 0, me_items = []\<rparr>
                                      | Some me \<Rightarrow> me);
                                memo' = AList.update elem
                                  (me\<lparr>me_demand := me_demand me + dem,
                                      me_items := me_items me @ [item]\<rparr>) memo
                            in Inr (temp', memo'))))))"

text \<open>
  One row of the demand: skipped when its date cell is set; flagged \<open>KeyError\<close>,
  \<open>TypeError\<close> or \<open>ValueError\<close> and skipped when it is invalid; otherwise stamped and
  aggregated. The result is the new value of the date cell and the new state.
\<close>

fun process_demand_row ::
  "(num \<Rightarrow> num) \<Rightarrow> type_contents \<Rightarrow> type_preforms \<Rightarrow> type_feedstock \<Rightarrow> string list \<Rightarrow> string \<Rightarrow>
   demand_row \<Rightarrow> type_temp \<times> type_memo \<Rightarrow> error + cell \<times> type_temp \<times> type_memo" where
  "process_demand_row rnd contents preforms fstock grouped now (date, item, qty) st =
     (if truthy date then Inr (date, st)
      else (case item of
              None \<Rightarrow> Inr (CStr ''KeyError'', st)
            | Some name \<Rightarrow>
                (case map_of contents name of
                   None \<Rightarrow> Inr (CStr ''KeyError'', st)
                 | Some elems \<Rightarrow>
                     (case qty of
                        CInt q \<Rightarrow>
                          if q \<le> 0 then Inr (CStr ''ValueError'', st)
                          else (case fold_err (process_elem rnd preforms fstock grouped name q) elems st of
                                  Inl e \<Rightarrow> Inl e
                                | Inr st' \<Rightarrow> Inr (CStr now, st'))
                      | _ \<Rightarrow> Inr (CStr ''TypeError'', st)))))"

fun aggregate ::
  "(num \<Rightarrow> num) \<Rightarrow> type_contents \<Rightarrow> type_preforms \<Rightarrow> type_feedstock \<Rightarrow> string list \<Rightarrow> string \<Rightarrow>
   demand_row list \<Rightarrow> type_temp \<times> type_memo \<Rightarrow> error + cell list \<times> type_temp \<times> type_memo" where
  "aggregate rnd contents preforms fstock grouped now [] st = Inr ([], st)"
| "aggregate rnd contents preforms fstock grouped now (row # rows) st =
     (case process_demand_row rnd contents preforms fstock grouped now row st of
        Inl e \<Rightarrow> Inl e
      | Inr (date', st') \<Rightarrow>
          (case aggregate rnd contents preforms fstock grouped now rows st' of
             Inl e \<Rightarrow> Inl e
           | Inr (dates, st'') \<Rightarrow> Inr (date' # dates, st'')))"

subsection \<open>calculate_sheets_number: the report\<close>

record report_row =
  rr_date :: string
  rr_sheet :: string
  rr_mode :: string
  rr_elem :: string
  rr_items :: string
  rr_demand :: int
  rr_recomm :: int
  rr_sheets_n :: num

text \<open>
  \<open>int(x)\<close> truncates towards zero. \<open>round(x, 1)\<close> is the float nearest to the value of \<open>x\<close>
  rounded to one decimal, ties to even; on an \<open>int\<close> it is the identity.
\<close>

definition py_int :: "num \<Rightarrow> int" where
  "py_int x = (if 0 \<le> x then \<lfloor>x\<rfloor> else \<lceil>x\<rceil>)"

definition py_round1 :: "(num \<Rightarrow> num) \<Rightarrow> num \<Rightarrow> num" where
  "py_round1 rnd x = rnd (of_int (round_half_even (x * 10)) / 10)"

text \<open>\<open>' '.join(items)\<close>\<close>

fun join_space :: "string list \<Rightarrow> string" where
  "join_space [] = []"
| "join_space [x] = x"
| "join_space (x # y # ys) = x @ '' '' @ join_space (y # ys)"

definition report_record ::
  "(num \<Rightarrow> num) \<Rightarrow> string \<Rightarrow> type_memo \<Rightarrow> string \<Rightarrow> string \<Rightarrow> string \<times> num \<Rightarrow> error + report_row" where
  "report_record rnd now memo sheet mode es =
     (case es of (elem, sheets_n) \<Rightarrow>
        (case map_of memo elem of
           None \<Rightarrow> Inl KeyError
         | Some me \<Rightarrow>
             Inr \<lparr>rr_date = now, rr_sheet = sheet, rr_mode = mode, rr_elem = elem,
                  rr_items = join_space (me_items me), rr_demand = me_demand me,
                  rr_recomm = py_int (rnd (sheets_n * of_int (me_pps me))),
                  rr_sheets_n = py_round1 rnd sheets_n\<rparr>))"

text \<open>
  \<open>sheetdict[mode] = t.transformer[mode](modedict)\<close>, then one record for every item of
  the transformed dict \<open>temp[sheet][mode]\<close>.
\<close>

definition report_mode ::
  "(num \<Rightarrow> num) \<Rightarrow> string \<Rightarrow> type_memo \<Rightarrow> string \<Rightarrow> string \<times> (string, num) dict \<Rightarrow>
   error + report_row list" where
  "report_mode rnd now memo sheet mm =
     (case mm of (mode, modedict) \<Rightarrow>
        (case map_of (transformer rnd) mode of
           None \<Rightarrow> Inl KeyError
         | Some f \<Rightarrow> map_err (report_record rnd now memo sheet mode) (f modedict)))"

definition report_sheet ::
  "(num \<Rightarrow> num) \<Rightarrow> string \<Rightarrow> type_memo \<Rightarrow> string \<times> (string, (string, num) dict) dict \<Rightarrow>
   error + report_row list" where
  "report_sheet rnd now memo ss =
     (case ss of (sheet, sheetdict) \<Rightarrow>
        (case map_err (report_mode rnd now memo sheet) sheetdict of
           Inl e \<Rightarrow> Inl e
         | Inr rss \<Rightarrow> Inr (concat rss)))"

definition report_all ::
  "(num \<Rightarrow> num) \<Rightarrow> string \<Rightarrow> type_memo \<Rightarrow> type_temp \<Rightarrow> error + report_row list" where
  "report_all rnd now memo temp =
     (case map_err (report_sheet rnd now memo) temp of
        Inl e \<Rightarrow> Inl e
      | Inr rss \<Rightarrow> Inr (concat rss))"

text \<open>
  The whole run on the reference tables, the time stamp, the demand rows and the
  \<open>grouped\<close> argument: the new values of the date cells and the rows appended to the
  report, or the exception that ends the run.
\<close>

definition calculate_sheets_number ::
  "(num \<Rightarrow> num) \<Rightarrow> type_contents \<Rightarrow> type_preforms \<Rightarrow> type_feedstock \<Rightarrow> string \<Rightarrow> demand_row list \<Rightarrow>
   string list option \<Rightarrow> error + cell list \<times> report_row list" where
  "calculate_sheets_number rnd contents preforms fstock now ws grouped =
     (let grouped = (case grouped of None \<Rightarrow> [] | Some g \<Rightarrow> g)
      in case aggregate rnd contents preforms fstock grouped now ws ([], []) of
           Inl e \<Rightarrow> Inl e
         | Inr (dates, temp, memo) \<Rightarrow>
             (let temp = sort_nested_dict temp
              in case report_all rnd now memo temp of
                   Inl e \<Rightarrow> Inl e
                 | Inr report \<Rightarrow> Inr (dates, report)))"

subsection \<open>The aggregation, contribution by contribution\<close>

text \<open>
  What the aggregation loop adds, entry by entry and element by element, in the order of
  the demand: a contribution is an item, its quantity, one element of the item and the
  element's piece count. Entries that are skipped or flagged contribute nothing.
\<close>

type_synonym contribution = "string \<times> int \<times> string \<times> int"

fun entry_contributions :: "type_contents \<Rightarrow> demand_row \<Rightarrow> contribution list" where
  "entry_contributions contents (date, item, qty) =
     (if truthy date then []
      else (case item of
              None \<Rightarrow> []
            | Some name \<Rightarrow>
                (case map_of contents name of
                   None \<Rightarrow> []
                 | Some elems \<Rightarrow>
                     (case qty of
                        CInt q \<Rightarrow> if q \<le> 0 then [] else map (\<lambda>(elem, pcs). (name, q, elem, pcs)) elems
                      | _ \<Rightarrow> []))))"

definition contributions :: "type_contents \<Rightarrow> demand_row list \<Rightarrow> contribution list" where
  "contributions contents rows = concat (map (entry_contributions contents) rows)"

definition contributing_items :: "type_contents \<Rightarrow> demand_row list \<Rightarrow> string \<Rightarrow> string list" where
  "contributing_items contents rows e =
     map fst (filter (\<lambda>(name, q, elem, pcs). elem = e) (contributions contents rows))"

text \<open>\<open>item in t.contents\<close>, and the entries the loop flags with an error kind.\<close>

definition item_known :: "type_contents \<Rightarrow> string option \<Rightarrow> bool" where
  "item_known contents item = (case item of None \<Rightarrow> False | Some name \<Rightarrow> map_of contents name \<noteq> None)"

fun invalid_entry :: "type_contents \<Rightarrow> demand_row \<Rightarrow> bool" where
  "invalid_entry contents (date, item, qty) =
     (\<not> truthy date \<and>
      (\<not> item_known contents item \<or> (case qty of CInt q \<Rightarrow> q \<le> 0 | _ \<Rightarrow> True)))"

text \<open>\<open>temp[sheet][mode][elem]\<close>, when the three keys are present.\<close>

definition bucket :: "type_temp \<Rightarrow> string \<Rightarrow> string \<Rightarrow> string \<Rightarrow> num option" where
  "bucket temp sheet mode elem =
     (case map_of temp sheet of
        None \<Rightarrow> None
      | Some sd \<Rightarrow> (case map_of sd mode of None \<Rightarrow> None | Some c \<Rightarrow> map_of c elem))"

text \<open>
  The loop body on a contribution, and its two halves: \<open>resolve\<close> computes what the body
  adds (or the exception it raises) from the reference tables alone, \<open>add_contribution\<close>
  adds it to \<open>temp\<close> and \<open>memo\<close>. Lemma \<open>apply_contribution_resolve\<close> shows that the
  body is the composition of the two when the cached \<open>pps\<close> values are those of
  \<open>get_pps\<close> (\<open>memo_ok\<close>).
\<close>

definition apply_contribution ::
  "(num \<Rightarrow> num) \<Rightarrow> type_preforms \<Rightarrow> type_feedstock \<Rightarrow> string list \<Rightarrow> contribution \<Rightarrow>
   type_temp \<times> type_memo \<Rightarrow> error + type_temp \<times> type_memo" where
  "apply_contribution rnd preforms fstock grouped c st =
     (case c of (name, q, elem, pcs) \<Rightarrow>
        process_elem rnd preforms fstock grouped name q (elem, pcs) st)"

record resolved =
  rc_sheet :: string
  rc_mode :: string
  rc_elem :: string
  rc_frac :: num
  rc_dem :: int
  rc_item :: string
  rc_pps :: int

definition elem_pps :: "type_preforms \<Rightarrow> type_feedstock \<Rightarrow> string \<Rightarrow> error + int" where
  "elem_pps preforms fstock elem =
     (case map_of preforms elem of
        None \<Rightarrow> Inl KeyError
      | Some pf \<Rightarrow> get_pps (pf_a pf) (pf_b pf) (pf_sheet pf) fstock)"

definition resolve ::
  "(num \<Rightarrow> num) \<Rightarrow> type_preforms \<Rightarrow> type_feedstock \<Rightarrow> string list \<Rightarrow> contribution \<Rightarrow>
   error + resolved" where
  "resolve rnd preforms fstock grouped c =
     (case c of (name, q, elem, pcs) \<Rightarrow>
        (case map_of preforms elem of
           None \<Rightarrow> Inl KeyError
         | Some pf \<Rightarrow>
             (case get_pps (pf_a pf) (pf_b pf) (pf_sheet pf) fstock of
                Inl e \<Rightarrow> Inl e
              | Inr pps \<Rightarrow>
                  if pps = 0 then Inl ZeroDivisionError
                  else Inr \<lparr>rc_sheet = pf_sheet pf,
                            rc_mode = (if has_marker name grouped then ''grouped'' else ''single''),
                            rc_elem = elem, rc_frac = rnd (of_int (q * pcs) / of_int pps),
                            rc_dem = q * pcs, rc_item = name, rc_pps = pps\<rparr>)))"

definition add_contribution ::
  "(num \<Rightarrow> num) \<Rightarrow> resolved \<Rightarrow> type_temp \<times> type_memo \<Rightarrow> type_temp \<times> type_memo" where
  "add_contribution rnd rc st =
     (case st of (temp, memo) \<Rightarrow>
        (let sheetdict = (case map_of temp (rc_sheet rc) of None \<Rightarrow> [] | Some sd \<Rightarrow> sd);
             counter = (case map_of sheetdict (rc_mode rc) of None \<Rightarrow> [] | Some c \<Rightarrow> c);
             counter' = AList.update (rc_elem rc)
               (case map_of counter (rc_elem rc) of
                  None \<Rightarrow> rc_frac rc
                | Some x \<Rightarrow> rnd (rc_frac rc + x)) counter;
             temp' = AList.update (rc_sheet rc) (AList.update (rc_mode rc) counter' sheetdict) temp;
             me = (case map_of memo (rc_elem rc) of
                     None \<Rightarrow> \<lparr>me_pps = rc_pps rc, me_demand = 0, me_items = []\<rparr>
                   | Some me \<Rightarrow> me);
             memo' = AList.update (rc_elem rc)
               (me\<lparr>me_demand := me_demand me + rc_dem rc, me_items := me_items me @ [rc_item rc]\<rparr>) memo
         in (temp', memo')))"

definition memo_ok :: "type_preforms \<Rightarrow> type_feedstock \<Rightarrow> type_memo \<Rightarrow> bool" where
  "memo_ok preforms fstock memo =
     (\<forall>elem me. map_of memo elem = Some me \<longrightarrow> elem_pps preforms fstock elem = Inr (me_pps me))"

text \<open>
  The fractional sheet counts a bucket receives from a demand list, in the order of the
  demand, and the total a \<open>Counter\<close> accumulates from such a list: the first count is
  stored, every later one is added to the stored value.
\<close>

definition resolved_of ::
  "(num \<Rightarrow> num) \<Rightarrow> type_contents \<Rightarrow> type_preforms \<Rightarrow> type_feedstock \<Rightarrow> string list \<Rightarrow>
   demand_row list \<Rightarrow> resolved list" where
  "resolved_of rnd contents preforms fstock grouped rows =
     (case map_err (resolve rnd preforms fstock grouped) (contributions contents rows) of
        Inl e \<Rightarrow> []
      | Inr rcs \<Rightarrow> rcs)"

definition bucket_contributions ::
  "(num \<Rightarrow> num) \<Rightarrow> type_contents \<Rightarrow> type_preforms \<Rightarrow> type_feedstock \<Rightarrow> string list \<Rightarrow>
   demand_row list \<Rightarrow> string \<Rightarrow> string \<Rightarrow> string \<Rightarrow> num list" where
  "bucket_contributions rnd contents preforms fstock grouped rows sheet mode elem =
     map rc_frac
       (filter (\<lambda>rc. rc_sheet rc = sheet \<and> rc_mode rc = mode \<and> rc_elem rc = elem)
          (resolved_of rnd contents preforms fstock grouped rows))"

fun accumulate :: "(num \<Rightarrow> num) \<Rightarrow> num list \<Rightarrow> num option" where
  "accumulate rnd [] = None"
| "accumulate rnd (x # xs) = Some (foldl (\<lambda>total y. rnd (y + total)) x xs)"


text \<open>
  The dict \<open>temp[sheet][mode]\<close> of a state, if there is one; and \<open>temp\<close> as a dict of
  dicts of dicts: no key occurs twice at any level.
\<close>

definition mode_dict :: "type_temp \<Rightarrow> string \<Rightarrow> string \<Rightarrow> (string, num) dict option" where
  "mode_dict temp sheet mode =
     (case map_of temp sheet of None \<Rightarrow> None | Some sd \<Rightarrow> map_of sd mode)"

definition wf_temp :: "type_temp \<Rightarrow> bool" where
  "wf_temp temp =
     (distinct (map fst temp) \<and>
      list_all (\<lambda>(sheet, sd). distinct (map fst sd) \<and>
                  list_all (\<lambda>(mode, md). distinct (map fst md)) sd) temp)"

section \<open>Evaluation of ceilings and floors of rational numerals\<close>

lemma ceiling_rat_numeral [simp]:
  "\<lceil>numeral a / numeral b :: rat\<rceil> = - (- numeral a div numeral b)"
  using ceiling_divide_eq_div [where 'a = rat, of "numeral a" "numeral b"] by simp

lemma ceiling_rat_one_numeral [simp]:
  "\<lceil>1 / numeral b :: rat\<rceil> = - (- 1 div numeral b)"
  using ceiling_divide_eq_div [where 'a = rat, of 1 "numeral b"] by simp

lemma floor_rat_numeral [simp]:
  "\<lfloor>numeral a / numeral b :: rat\<rfloor> = numeral a div numeral b"
  using floor_divide_of_int_eq [where 'a = rat, of "numeral a" "numeral b"] by simp

section \<open>The yield of a sheet\<close>

text \<open>
  Claim C5. For positive preform dimensions \<open>a\<close>, \<open>b\<close> and a feedstock sheet of positive
  width \<open>W\<close> and length \<open>L\<close>, \<open>get_pps\<close> returns
  \<open>max (floor (L/a) * floor (W/b)) (floor (L/b) * floor (W/a))\<close>; for
  \<open>a = 100\<close>, \<open>b = 50\<close>, \<open>W = 1000\<close>, \<open>L = 2000\<close> it returns 400.
\<close>

theorem get_pps_best_packing:
  "(\<forall>a b sheet fstock fs.
      0 < a \<longrightarrow> 0 < b \<longrightarrow> map_of fstock sheet = Some fs \<longrightarrow> 0 < fs_W fs \<longrightarrow> 0 < fs_L fs \<longrightarrow>
      get_pps a b sheet fstock =
        Inr (max (\<lfloor>fs_L fs / a\<rfloor> * \<lfloor>fs_W fs / b\<rfloor>) (\<lfloor>fs_L fs / b\<rfloor> * \<lfloor>fs_W fs / a\<rfloor>)))
   \<and> get_pps 100 50 ''S'' [(''S'', \<lparr>fs_d = 1, fs_W = 1000, fs_L = 2000, fs_rho = 1\<rparr>)] = Inr 400"
  by (simp add: get_pps_def Let_def)

theorem get_pps_best_packing_witness:
  "(0::num) < 30 \<and> (0::num) < 20
   \<and> map_of [(''S'', \<lparr>fs_d = 1, fs_W = 100, fs_L = 250, fs_rho = 1\<rparr>)] ''S''
       = Some \<lparr>fs_d = 1, fs_W = 100, fs_L = 250, fs_rho = 1\<rparr>
   \<and> get_pps 30 20 ''S'' [(''S'', \<lparr>fs_d = 1, fs_W = 100, fs_L = 250, fs_rho = 1\<rparr>)] = Inr 40"
proof -
  have "get_pps 30 20 ''S'' [(''S'', \<lparr>fs_d = 1, fs_W = 100, fs_L = 250, fs_rho = 1\<rparr>)]
        = Inr (max (\<lfloor>250 / (30::num)\<rfloor> * \<lfloor>100 / (20::num)\<rfloor>) (\<lfloor>250 / (20::num)\<rfloor> * \<lfloor>100 / (30::num)\<rfloor>))"
    using get_pps_best_packing by simp
  then show ?thesis by simp
qed


section \<open>The grouped distribution\<close>

subsection \<open>The loop and the walk\<close>

lemma update_in_place:
  "k \<notin> fst ` set pre \<Longrightarrow> AList.update k v' (pre @ (k, v) # rest) = pre @ (k, v') # rest"
  by (induction pre) auto

lemma map_entry_in_place:
  "k \<notin> fst ` set pre \<Longrightarrow> AList.map_entry k f (pre @ (k, v) # rest) = pre @ (k, f v) # rest"
  by (induction pre) auto

lemma spread_loop_walk:
  "distinct (map fst (pre @ items)) \<Longrightarrow>
   spread_loop rnd s items (pre @ items) =
     (case walk rnd s items of (e, done, rest) \<Rightarrow> (e, rest, pre @ done @ rest))"
proof (induction items arbitrary: s pre)
  case Nil
  then show ?case by simp
next
  case (Cons kv items)
  obtain k v where kv: "kv = (k, v)" by (cases kv)
  let ?s' = "rnd (s - get_ceil_delta rnd v)"
  from Cons.prems kv have notin: "k \<notin> fst ` set pre" by auto
  from Cons.prems kv have dist: "distinct (map fst ((pre @ [(k, of_int \<lceil>v\<rceil>)]) @ items))" by auto
  have step: "spread_loop rnd ?s' items ((pre @ [(k, of_int \<lceil>v\<rceil>)]) @ items) =
     (case walk rnd ?s' items of
        (e, done, rest) \<Rightarrow> (e, rest, (pre @ [(k, of_int \<lceil>v\<rceil>)]) @ done @ rest))"
    by (rule Cons.IH [OF dist])
  show ?case
    using step notin
    by (simp add: kv Let_def update_in_place map_entry_in_place split: prod.splits)
qed

text \<open>
  The shape of the result: the visited elements that were rounded up hold their ceilings,
  the element at which the spread ran short (if any) holds its value plus the remaining
  spread, and the elements never reached are unchanged.
\<close>

lemma walk_shape:
  "walk rnd s items = (e, done, rest) \<Longrightarrow>
   (e \<noteq> Absorbed \<and> (\<exists>vis. items = vis @ rest \<and> done = ceil_dict_values vis
        \<and> (items \<noteq> [] \<longrightarrow> vis \<noteq> [])))
   \<or> (e = Absorbed \<and> (\<exists>vis k v s'. items = vis @ (k, v) # rest \<and> s' < get_ceil_delta rnd v
        \<and> done = ceil_dict_values vis @ [(k, rnd (v + s'))]))"
proof (induction items arbitrary: s e "done" rest)
  case Nil
  then show ?case by (auto simp: ceil_dict_values_def)
next
  case (Cons kv items)
  obtain k v where kv: "kv = (k, v)" by (cases kv)
  let ?s' = "rnd (s - get_ceil_delta rnd v)"
  show ?case
  proof (cases "s < get_ceil_delta rnd v")
    case True
    with Cons.prems kv have "e = Absorbed" "rest = items" "done = [(k, rnd (v + s))]"
      by (simp_all add: Let_def)
    with True kv have "kv # items = [] @ (k, v) # rest \<and> s < get_ceil_delta rnd v
        \<and> done = ceil_dict_values [] @ [(k, rnd (v + s))]"
      by (simp add: ceil_dict_values_def)
    with \<open>e = Absorbed\<close> show ?thesis by blast
  next
    case False
    note ge = this
    show ?thesis
    proof (cases "?s' = 0")
      case True
      with Cons.prems kv ge have "e = Zeroed" "rest = items" "done = [(k, of_int \<lceil>v\<rceil>)]"
        by (simp_all add: Let_def)
      with kv have "kv # items = [(k, v)] @ rest \<and> done = ceil_dict_values [(k, v)]"
        by (simp add: ceil_dict_values_def)
      with \<open>e = Zeroed\<close> show ?thesis by blast
    next
      case False
      obtain e' d' r' where w: "walk rnd ?s' items = (e', d', r')"
        by (cases "walk rnd ?s' items")
      from Cons.prems kv ge False w
      have eq: "e = e'" "rest = r'" "done = (k, of_int \<lceil>v\<rceil>) # d'"
        by (simp_all add: Let_def)
      from Cons.IH [OF w] show ?thesis
      proof (elim disjE conjE exE)
        fix vis assume "e' \<noteq> Absorbed" "items = vis @ r'" "d' = ceil_dict_values vis"
        with eq kv have "e \<noteq> Absorbed" "kv # items = ((k, v) # vis) @ rest"
          "done = ceil_dict_values ((k, v) # vis)" "(k, v) # vis \<noteq> []"
          by (simp_all add: ceil_dict_values_def)
        then show ?thesis by blast
      next
        fix vis k' v' s'
        assume "e' = Absorbed" "items = vis @ (k', v') # r'" "s' < get_ceil_delta rnd v'"
          "d' = ceil_dict_values vis @ [(k', rnd (v' + s'))]"
        with eq kv have "e = Absorbed" "kv # items = ((k, v) # vis) @ (k', v') # rest"
          "s' < get_ceil_delta rnd v'"
          "done = ceil_dict_values ((k, v) # vis) @ [(k', rnd (v' + s'))]"
          by (simp_all add: ceil_dict_values_def)
        then show ?thesis by blast
      qed
    qed
  qed
qed

lemma map_fst_ceil_dict_values: "map fst (ceil_dict_values d) = map fst d"
  by (induction d) (auto simp: ceil_dict_values_def)

lemma walk_keys:
  assumes "walk rnd s items = (e, done, rest)"
  shows "map fst (done @ rest) = map fst items"
  using walk_shape [OF assms] by (auto simp: map_fst_ceil_dict_values)

lemma mset_spread_sorted: "mset (spread_sorted rnd d) = mset d"
  by (simp add: spread_sorted_def)

lemma sum_spread_sorted:
  fixes f :: "'k \<times> num \<Rightarrow> 'a::comm_monoid_add"
  shows "sum_list (map f (spread_sorted rnd d)) = sum_list (map f d)"
proof -
  have "sum_mset (image_mset f (mset (spread_sorted rnd d))) = sum_mset (image_mset f (mset d))"
    by (simp add: mset_spread_sorted)
  then show ?thesis by (simp only: mset_map [symmetric] sum_mset_sum_list)
qed

lemma distinct_spread_sorted:
  "distinct (map fst (spread_sorted rnd d)) = distinct (map fst d)"
proof -
  have "mset (map fst (spread_sorted rnd d)) = mset (map fst d)"
    by (simp add: mset_spread_sorted)
  then show ?thesis by (rule mset_eq_imp_distinct_iff)
qed

lemma map_of_spread_sorted:
  assumes "distinct (map fst d)"
  shows "map_of (spread_sorted rnd d) = map_of d"
proof -
  have "set (spread_sorted rnd d) = set d"
    by (simp add: spread_sorted_def)
  with assms show ?thesis
    by (simp add: map_of_inject_set distinct_spread_sorted)
qed

lemma spread_run_walk:
  assumes "distinct (map fst d)"
  shows "spread_run rnd d =
    (case walk rnd (get_ceil_delta rnd (py_sum rnd (map snd (spread_sorted rnd d))))
            (spread_sorted rnd d) of
       (e, done, rest) \<Rightarrow> (e, rest, done @ rest))"
proof -
  have "distinct (map fst ([] @ spread_sorted rnd d))"
    using assms by (simp add: distinct_spread_sorted)
  from spread_loop_walk [OF this]
  show ?thesis by (simp add: spread_run_def Let_def)
qed

lemma spread_delta_keys:
  assumes dist: "distinct (map fst d)"
  shows "map fst (spread_delta rnd d) = map fst (spread_sorted rnd d)"
proof -
  let ?s = "get_ceil_delta rnd (py_sum rnd (map snd (spread_sorted rnd d)))"
  obtain e dn rest where w: "walk rnd ?s (spread_sorted rnd d) = (e, dn, rest)"
    by (cases "walk rnd ?s (spread_sorted rnd d)")
  have out: "spread_delta rnd d = dn @ rest"
    by (simp add: spread_delta_def spread_run_walk [OF dist] w)
  from walk_keys [OF w] show ?thesis by (simp add: out)
qed

subsection \<open>Exact arithmetic\<close>

lemma py_sum_exact: "py_sum exact xs = sum_list xs"
proof -
  have "foldl (\<lambda>s x. s + x) a xs = a + sum_list xs" for a :: num
    by (induction xs arbitrary: a) (simp_all add: add.assoc)
  from this [of 0] show ?thesis by (simp add: py_sum_def)
qed

lemma ceil_delta_nonneg: "0 \<le> get_ceil_delta exact v"
  by (simp add: get_ceil_delta_def)


lemma walk_bounds:
  "0 \<le> s \<Longrightarrow> walk exact s items = (e, done, rest) \<Longrightarrow>
   list_all2 (\<lambda>old new. fst new = fst old \<and> snd old \<le> snd new \<and> snd new \<le> of_int \<lceil>snd old\<rceil>)
     items (done @ rest)"
proof (induction items arbitrary: s e "done" rest)
  case Nil
  then show ?case by simp
next
  case (Cons kv items)
  obtain k v where kv: "kv = (k, v)" by (cases kv)
  have refl: "list_all2 (\<lambda>old new. fst new = fst old \<and> snd old \<le> snd new \<and> snd new \<le> of_int \<lceil>snd old\<rceil>)
     items items"
    by (simp add: list_all2_same)
  show ?case
  proof (cases "s < get_ceil_delta exact v \<or> s - get_ceil_delta exact v = 0")
    case True
    with Cons.prems kv refl show ?thesis
      by (auto simp: Let_def get_ceil_delta_def split: if_splits)
  next
    case False
    obtain e' d' r' where w: "walk exact (s - get_ceil_delta exact v) items = (e', d', r')"
      by (cases "walk exact (s - get_ceil_delta exact v) items")
    from False have a: "0 \<le> s - get_ceil_delta exact v" by simp
    note ih = Cons.IH [OF a w]
    from Cons.prems(2) kv False w have "rest = r' \<and> done = (k, of_int \<lceil>v\<rceil>) # d'"
      by (auto simp: Let_def)
    then show ?thesis using ih kv by simp
  qed
qed





lemma list_all2_map_of:
  "list_all2 (\<lambda>old new. fst new = fst old \<and> P (snd old) (snd new)) xs ys \<Longrightarrow>
   map_of xs k = Some v \<Longrightarrow> \<exists>v'. map_of ys k = Some v' \<and> P v v'"
proof (induction xs ys rule: list_all2_induct)
  case Nil
  then show ?case by simp
next
  case (Cons x xs y ys)
  then show ?case by (cases x; cases y) (auto split: if_splits)
qed

text \<open>In exact arithmetic every value of the result lies between its input and the ceiling.\<close>

lemma spread_delta_range:
  assumes dist: "distinct (map fst d)" and k: "map_of d k = Some v"
  shows "\<exists>v'. map_of (spread_delta exact d) k = Some v' \<and> v \<le> v' \<and> v' \<le> of_int \<lceil>v\<rceil>"
proof -
  let ?s = "get_ceil_delta exact (sum_list (map snd d))"
  obtain e dn rest where w: "walk exact ?s (spread_sorted exact d) = (e, dn, rest)"
    by (cases "walk exact ?s (spread_sorted exact d)")
  have out: "spread_delta exact d = dn @ rest"
    by (simp add: spread_delta_def spread_run_walk [OF dist] py_sum_exact sum_spread_sorted w)
  from walk_bounds [OF ceil_delta_nonneg w]
  have "list_all2 (\<lambda>old new. fst new = fst old \<and> (\<lambda>a b. a \<le> b \<and> b \<le> of_int \<lceil>a\<rceil>) (snd old) (snd new))
     (spread_sorted exact d) (spread_delta exact d)"
    by (simp add: out)
  moreover from k have "map_of (spread_sorted exact d) k = Some v"
    by (simp add: map_of_spread_sorted [OF dist])
  ultimately show ?thesis by (rule list_all2_map_of)
qed

lemma walk_zeroed:
  assumes "walk rnd s items = (Zeroed, done, rest)"
  shows "\<exists>vis. vis \<noteq> [] \<and> items = vis @ rest \<and> done = ceil_dict_values vis"
proof -
  from assms have "items \<noteq> []" by (cases items) auto
  with walk_shape [OF assms] show ?thesis by auto
qed

lemma not_Ints_between:
  fixes x :: num
  assumes "of_int n < x" and "x < of_int n + 1"
  shows "x \<notin> \<int>"
proof
  assume "x \<in> \<int>"
  then obtain z where z: "x = of_int z" by (rule Ints_cases)
  from assms have "n < z" and "z < n + 1" unfolding z by linarith+
  then show False by simp
qed

subsection \<open>The sum of the result\<close>




subsection \<open>The values of the result\<close>

text \<open>
  Claim C3 says that both rounding policies return integer values only. For
  \<open>spread_delta\<close> this fails: on \<open>{x: 0.25, y: 0.25}\<close> the sum is \<open>0.5\<close>, the spread
  \<open>0.5\<close> is below the delta \<open>0.75\<close> of \<open>x\<close>, so \<open>x\<close> absorbs it and the loop ends with
  \<open>{x: 0.75, y: 0.25}\<close>.
\<close>

theorem spread_delta_fractional_counterexample:
  "list_all (\<lambda>(k, v). 0 < v) [(''x'', 1 / 4), (''y'', 1 / 4 :: num)]
   \<and> spread_delta fl64 [(''x'', 1 / 4), (''y'', 1 / 4)] = [(''x'', 3 / 4), (''y'', 1 / 4)]
   \<and> (3 / 4 :: num) \<notin> \<int>"
proof -
  have "spread_delta fl64 [(''x'', 1 / 4), (''y'', 1 / 4)] = [(''x'', 3 / 4), (''y'', 1 / 4)]"
    by code_simp
  moreover have "(3 / 4 :: num) \<notin> \<int>"
    by (rule not_Ints_between [of 0]) simp_all
  ultimately show ?thesis by simp
qed

text \<open>
  Claim C3, amended. For every mapping \<open>d\<close> with positive fractional values, both policies
  return a mapping over the keys of \<open>d\<close>. Every value of \<open>ceil_dict_values d\<close> is an
  integer. The result of \<open>spread_delta\<close> lists, in the order of the walk, the elements it
  rounded up with the integer ceilings of their values, then possibly one element with
  its value plus the remaining spread, then the elements it did not visit with their
  values unchanged: the last two kinds need not be integers.
\<close>

theorem rounding_policies_values:
  assumes "distinct (map fst d)" and "list_all (\<lambda>(k, v). 0 < v) d"
  shows "list_all (\<lambda>(k, v). v \<in> \<int>) (ceil_dict_values d)
         \<and> map fst (ceil_dict_values d) = map fst d
         \<and> mset (map fst (spread_delta rnd d)) = mset (map fst d)
         \<and> ((\<exists>vis. spread_sorted rnd d = vis @ unvisited rnd d
                \<and> spread_delta rnd d = ceil_dict_values vis @ unvisited rnd d)
            \<or> (\<exists>vis k v s. spread_sorted rnd d = vis @ (k, v) # unvisited rnd d
                \<and> s < get_ceil_delta rnd v
                \<and> spread_delta rnd d = ceil_dict_values vis @ (k, rnd (v + s)) # unvisited rnd d))"
proof -
  let ?s = "get_ceil_delta rnd (py_sum rnd (map snd (spread_sorted rnd d)))"
  obtain e dn rest where w: "walk rnd ?s (spread_sorted rnd d) = (e, dn, rest)"
    by (cases "walk rnd ?s (spread_sorted rnd d)")
  have out: "spread_delta rnd d = dn @ rest" and un: "unvisited rnd d = rest"
    by (simp_all add: spread_delta_def unvisited_def spread_run_walk [OF assms(1)] w)
  have a: "list_all (\<lambda>(k, v). v \<in> \<int>) (ceil_dict_values d)"
    by (induction d) (auto simp: ceil_dict_values_def)
  have b: "map fst (ceil_dict_values d) = map fst d"
    by (rule map_fst_ceil_dict_values)
  have "mset (map fst (spread_sorted rnd d)) = mset (map fst d)"
    by (simp add: mset_spread_sorted)
  then have c: "mset (map fst (spread_delta rnd d)) = mset (map fst d)"
    by (simp add: spread_delta_keys [OF assms(1)])
  from walk_shape [OF w]
  have "(\<exists>vis. spread_sorted rnd d = vis @ rest \<and> dn @ rest = ceil_dict_values vis @ rest)
      \<or> (\<exists>vis k v s. spread_sorted rnd d = vis @ (k, v) # rest \<and> s < get_ceil_delta rnd v
            \<and> dn @ rest = ceil_dict_values vis @ (k, rnd (v + s)) # rest)"
    by auto
  with a b c show ?thesis unfolding out un by blast
qed

theorem rounding_policies_values_witness:
  "distinct (map fst [(''x'', 1 / 4), (''y'', 1 / 4 :: num)])
   \<and> list_all (\<lambda>(k, v). 0 < v) [(''x'', 1 / 4), (''y'', 1 / 4 :: num)]
   \<and> list_all (\<lambda>(k, v). v \<in> \<int>) (ceil_dict_values [(''x'', 1 / 4), (''y'', 1 / 4 :: num)])
   \<and> ceil_dict_values [(''x'', 1 / 4), (''y'', 1 / 4 :: num)] = [(''x'', 1), (''y'', 1)]
   \<and> mset (map fst (spread_delta fl64 [(''x'', 1 / 4), (''y'', 1 / 4)])) = mset [''x'', ''y'']
   \<and> spread_delta fl64 [(''x'', 1 / 4), (''y'', 1 / 4)] = [(''x'', fl64 (1 / 4 + 1 / 2)), (''y'', 1 / 4)]"
proof -
  let ?d = "[(''x'', 1 / 4), (''y'', 1 / 4 :: num)]"
  have h1: "distinct (map fst ?d)" by simp
  have h2: "list_all (\<lambda>(k, v). 0 < v) ?d" by simp
  have e: "spread_delta fl64 ?d = [(''x'', fl64 (1 / 4 + 1 / 2)), (''y'', 1 / 4)]" by code_simp
  have c: "ceil_dict_values ?d = [(''x'', 1), (''y'', 1)]" by (simp add: ceil_dict_values_def)
  from rounding_policies_values [OF h1 h2, of fl64]
  have "list_all (\<lambda>(k, v). v \<in> \<int>) (ceil_dict_values ?d)"
    and "mset (map fst (spread_delta fl64 ?d)) = mset (map fst ?d)"
    by blast+
  with h1 h2 e c show ?thesis by simp
qed

subsection \<open>The exit on a zero spread\<close>

text \<open>
  Claim C4. If the loop of \<open>spread_delta\<close> ends because the running spread reached exactly
  0 after an element was rounded up to its ceiling, the elements visited so far hold their
  ceilings and every element not yet visited keeps its original input value in the
  output mapping.
\<close>

theorem spread_delta_zero_exit:
  assumes "distinct (map fst d)" and "spread_run rnd d = (Zeroed, rest, out)"
  shows "spread_delta rnd d = out
         \<and> (\<exists>vis. vis \<noteq> [] \<and> spread_sorted rnd d = vis @ rest \<and> out = ceil_dict_values vis @ rest)
         \<and> list_all (\<lambda>(k, v). map_of d k = Some v \<and> map_of (spread_delta rnd d) k = Some v) rest"
proof -
  let ?s = "get_ceil_delta rnd (py_sum rnd (map snd (spread_sorted rnd d)))"
  obtain e dn r where w: "walk rnd ?s (spread_sorted rnd d) = (e, dn, r)"
    by (cases "walk rnd ?s (spread_sorted rnd d)")
  from assms(2) have eq: "e = Zeroed" "r = rest" "out = dn @ rest"
    by (auto simp: spread_run_walk [OF assms(1)] w)
  have a: "spread_delta rnd d = out"
    by (simp add: spread_delta_def assms(2))
  from w eq have "walk rnd ?s (spread_sorted rnd d) = (Zeroed, dn, rest)" by simp
  from walk_zeroed [OF this] obtain vis
    where vis: "vis \<noteq> []" "spread_sorted rnd d = vis @ rest" "dn = ceil_dict_values vis" by blast
  have dk: "distinct (map fst (vis @ rest))"
    using assms(1) vis(2) distinct_spread_sorted [of rnd d] by simp
  then have dk': "distinct (map fst (ceil_dict_values vis @ rest))"
    by (simp add: map_fst_ceil_dict_values)
  have c: "list_all (\<lambda>(k, v). map_of d k = Some v \<and> map_of (spread_delta rnd d) k = Some v) rest"
    unfolding list_all_iff
  proof (clarify, intro conjI)
    fix k v assume kv: "(k, v) \<in> set rest"
    then have "(k, v) \<in> set (vis @ rest)" by simp
    with dk have "map_of (vis @ rest) k = Some v" by (rule map_of_is_SomeI)
    then show "map_of d k = Some v"
      using vis(2) map_of_spread_sorted [OF assms(1), of rnd] by simp
    from kv have "(k, v) \<in> set (ceil_dict_values vis @ rest)" by simp
    with dk' have "map_of (ceil_dict_values vis @ rest) k = Some v" by (rule map_of_is_SomeI)
    then show "map_of (spread_delta rnd d) k = Some v"
      using a eq(3) vis(3) by simp
  qed
  from a vis eq c show ?thesis by blast
qed

theorem spread_delta_zero_exit_witness:
  "distinct (map fst [(''a'', 3 / 4), (''b'', 1 / 2), (''c'', 1 / 2 :: num)])
   \<and> spread_run fl64 [(''a'', 3 / 4), (''b'', 1 / 2), (''c'', 1 / 2)]
       = (Zeroed, [(''b'', 1 / 2), (''c'', 1 / 2)], [(''a'', 1), (''b'', 1 / 2), (''c'', 1 / 2)])
   \<and> spread_delta fl64 [(''a'', 3 / 4), (''b'', 1 / 2), (''c'', 1 / 2)]
       = [(''a'', 1), (''b'', 1 / 2), (''c'', 1 / 2)]
   \<and> list_all (\<lambda>(k, v). map_of [(''a'', 3 / 4), (''b'', 1 / 2), (''c'', 1 / 2 :: num)] k = Some v
         \<and> map_of (spread_delta fl64 [(''a'', 3 / 4), (''b'', 1 / 2), (''c'', 1 / 2)]) k = Some v)
       [(''b'', 1 / 2), (''c'', 1 / 2)]"
proof -
  let ?d = "[(''a'', 3 / 4), (''b'', 1 / 2), (''c'', 1 / 2 :: num)]"
  have h1: "distinct (map fst ?d)" by simp
  have h2: "spread_run fl64 ?d
      = (Zeroed, [(''b'', 1 / 2), (''c'', 1 / 2)], [(''a'', 1), (''b'', 1 / 2), (''c'', 1 / 2)])"
    by code_simp
  from spread_delta_zero_exit [OF h1 h2] h1 h2 show ?thesis by blast
qed

section \<open>The marker rule\<close>

text \<open>
  Claim C7 says that \<open>has_marker "WidgetPro" ["Pro"]\<close> is false. The marker \<open>Pro\<close> is not
  all lowercase, so it is searched in the name verbatim, where it occurs.
\<close>

theorem has_marker_Pro_counterexample: "has_marker ''WidgetPro'' [''Pro'']"
  by code_simp

text \<open>
  Claim C7, amended. A marker for which \<open>islower\<close> holds is searched in the lowercased
  name, any other marker in the name verbatim (case-sensitive);
  \<open>has_marker "WidgetPro" ["pro"]\<close> and \<open>has_marker "WidgetPro" ["Pro"]\<close> are true, and
  \<open>has_marker "WidgetPro" ["PRO"]\<close> is false.
\<close>

theorem has_marker_rule:
  "has_marker name markers =
     (\<exists>m \<in> set markers. if str_islower m then sublist m (str_lower name) else sublist m name)
   \<and> has_marker ''WidgetPro'' [''pro'']
   \<and> has_marker ''WidgetPro'' [''Pro'']
   \<and> \<not> has_marker ''WidgetPro'' [''PRO'']"
proof -
  have "has_marker name markers =
     (\<exists>m \<in> set markers. if str_islower m then sublist m (str_lower name) else sublist m name)"
    unfolding has_marker_def list_ex_iff by (auto split: if_splits)
  moreover have "has_marker ''WidgetPro'' [''pro'']" by code_simp
  moreover have "has_marker ''WidgetPro'' [''Pro'']" by code_simp
  moreover have "\<not> has_marker ''WidgetPro'' [''PRO'']" by code_simp
  ultimately show ?thesis by blast
qed


section \<open>update_contents keeps the bill of materials well formed\<close>

lemma list_all_update:
  "list_all P al \<Longrightarrow> P (k, v) \<Longrightarrow> list_all P (AList.update k v al)"
  by (induction al) auto

lemma list_all_delete:
  "list_all P al \<Longrightarrow> list_all P (AList.delete k al)"
  by (simp add: AList.delete_eq list_all_iff)

lemma list_all_map_of:
  "list_all P al \<Longrightarrow> map_of al k = Some v \<Longrightarrow> P (k, v)"
  by (auto simp: list_all_iff dest: map_of_SomeD)

lemma update_contents_row_wf:
  assumes "wf_contents temp"
  shows "wf_contents (snd (update_contents_row now row temp))"
proof -
  obtain date item elem pcs where row: "row = (date, item, elem, pcs)"
    by (cases row)
  let ?P = "\<lambda>(item, elems). elems \<noteq> [] \<and> list_all (\<lambda>(elem, pcs). 0 < (pcs::int)) elems"
  from assms have all: "list_all ?P temp" by (simp add: wf_contents_def)
  have ins: "wf_contents (AList.update i (AList.update e p
               (case map_of temp i of None \<Rightarrow> [] | Some elems \<Rightarrow> elems)) temp)"
    if "0 < p" for i e p
  proof -
    have "list_all (\<lambda>(elem, pcs). 0 < (pcs::int)) (case map_of temp i of None \<Rightarrow> [] | Some elems \<Rightarrow> elems)"
      using list_all_map_of [OF all] by (auto split: option.splits)
    then have "list_all (\<lambda>(elem, pcs). 0 < (pcs::int))
        (AList.update e p (case map_of temp i of None \<Rightarrow> [] | Some elems \<Rightarrow> elems))"
      using that by (intro list_all_update) simp_all
    then show ?thesis
      unfolding wf_contents_def using all by (intro list_all_update) simp_all
  qed
  have del: "wf_contents (AList.update i (AList.delete e elems) temp)"
    if "map_of temp i = Some elems" "AList.delete e elems \<noteq> []" for i e elems
  proof -
    from list_all_map_of [OF all that(1)]
    have "list_all (\<lambda>(elem, pcs). 0 < (pcs::int)) elems" by simp
    then have "list_all (\<lambda>(elem, pcs). 0 < (pcs::int)) (AList.delete e elems)"
      by (rule list_all_delete)
    with that(2) show ?thesis
      unfolding wf_contents_def using all by (intro list_all_update) simp_all
  qed
  have del2: "wf_contents (AList.delete i temp)" for i
    unfolding wf_contents_def using all by (rule list_all_delete)
  show ?thesis
  proof (cases "truthy date")
    case True
    with assms show ?thesis by (simp add: row)
  next
    case nd: False
    show ?thesis
    proof (cases item)
      case None
      with assms nd show ?thesis by (simp add: row)
    next
      case (Some i)
      note i = this
      show ?thesis
      proof (cases elem)
        case None
        with assms nd i show ?thesis by (simp add: row)
      next
        case (Some e)
        note e = this
        show ?thesis
        proof (cases pcs)
          case (CInt n)
          consider "0 < n" | "n = 0" | "n < 0" by linarith
          then show ?thesis
          proof cases
            case 1
            from ins [OF 1, of i e] show ?thesis
              using nd 1 by (simp add: row i e CInt)
          next
            case 2
            show ?thesis
            proof (cases "map_of temp i")
              case None
              with assms nd 2 show ?thesis by (simp add: row i e CInt)
            next
              case (Some elems)
              note elems = this
              show ?thesis
              proof (cases "map_of elems e")
                case None
                with assms nd 2 elems show ?thesis by (simp add: row i e CInt)
              next
                case (Some old)
                show ?thesis
                proof (cases "AList.delete e elems = []")
                  case True
                  with del2 [of i] nd 2 elems Some show ?thesis
                    by (simp add: row i e CInt)
                next
                  case False
                  with del [OF elems False] nd 2 elems Some show ?thesis
                    by (simp add: row i e CInt)
                qed
              qed
            qed
          next
            case 3
            with assms nd show ?thesis by (simp add: row i e CInt)
          qed
        qed (use assms nd i e in \<open>simp_all add: row\<close>)
      qed
    qed
  qed
qed

lemma update_contents_wf:
  "wf_contents temp \<Longrightarrow> wf_contents (snd (update_contents ws temp now))"
proof (induction ws arbitrary: temp)
  case Nil
  then show ?case by simp
next
  case (Cons row ws)
  obtain d t where r: "update_contents_row now row temp = (d, t)"
    by (cases "update_contents_row now row temp")
  obtain ds t' where r2: "update_contents ws t now = (ds, t')"
    by (cases "update_contents ws t now")
  from update_contents_row_wf [OF Cons.prems, of now row] r
  have "wf_contents t" by simp
  from Cons.IH [OF this] r2 show ?case
    by (simp add: r)
qed

text \<open>
  Claim C10. A contents row with quantity exactly 0 is flagged \<open>KeyError\<close>, the mapping
  unchanged, when the item or the element is absent; otherwise the element is deleted
  from the item's mapping, and the item itself when its mapping becomes empty, other
  items are untouched and the row is stamped. Consequently, when the input bill of
  materials has only positive piece counts and no empty item mapping, so has the mapping
  \<open>update_contents\<close> returns.
\<close>

theorem update_contents_zero_quantity:
  "(\<not> truthy date \<longrightarrow>
      (map_of temp item = None \<longrightarrow>
         update_contents_row now (date, Some item, Some elem, CInt 0) temp = (CStr ''KeyError'', temp))
    \<and> (\<forall>elems. map_of temp item = Some elems \<longrightarrow> map_of elems elem = None \<longrightarrow>
         update_contents_row now (date, Some item, Some elem, CInt 0) temp = (CStr ''KeyError'', temp))
    \<and> (\<forall>elems old. map_of temp item = Some elems \<longrightarrow> map_of elems elem = Some old \<longrightarrow>
         fst (update_contents_row now (date, Some item, Some elem, CInt 0) temp) = now
         \<and> map_of (snd (update_contents_row now (date, Some item, Some elem, CInt 0) temp)) item
             = (if AList.delete elem elems = [] then None else Some (AList.delete elem elems))
         \<and> map_of (AList.delete elem elems) elem = None
         \<and> (\<forall>other. other \<noteq> item \<longrightarrow>
               map_of (snd (update_contents_row now (date, Some item, Some elem, CInt 0) temp)) other
                 = map_of temp other)))
   \<and> (wf_contents temp \<longrightarrow> wf_contents (snd (update_contents ws temp now)))"
  by (auto simp: Let_def AList.update_conv' AList.delete_conv' update_contents_wf)

theorem update_contents_zero_quantity_witness:
  "\<not> truthy CNone
   \<and> map_of [(''A'', [(''x'', 2::int)]), (''B'', [(''x'', 1), (''y'', 3)])] ''B''
       = Some [(''x'', 1), (''y'', 3)]
   \<and> map_of [(''x'', 1::int), (''y'', 3)] ''x'' = Some 1
   \<and> wf_contents [(''A'', [(''x'', 2)]), (''B'', [(''x'', 1), (''y'', 3)])]
   \<and> update_contents
        [(CNone, Some ''B'', Some ''x'', CInt 0), (CNone, Some ''A'', Some ''x'', CInt 0),
         (CNone, Some ''A'', Some ''x'', CInt 0)]
        [(''A'', [(''x'', 2)]), (''B'', [(''x'', 1), (''y'', 3)])] (CStr ''now'')
       = ([CStr ''now'', CStr ''now'', CStr ''KeyError''], [(''B'', [(''y'', 3)])])
   \<and> wf_contents (snd (update_contents
        [(CNone, Some ''B'', Some ''x'', CInt 0), (CNone, Some ''A'', Some ''x'', CInt 0),
         (CNone, Some ''A'', Some ''x'', CInt 0)]
        [(''A'', [(''x'', 2)]), (''B'', [(''x'', 1), (''y'', 3)])] (CStr ''now'')))"
proof -
  let ?temp = "[(''A'', [(''x'', 2::int)]), (''B'', [(''x'', 1), (''y'', 3)])]"
  let ?ws = "[(CNone, Some ''B'', Some ''x'', CInt 0), (CNone, Some ''A'', Some ''x'', CInt 0),
         (CNone, Some ''A'', Some ''x'', CInt 0)]"
  have wf: "wf_contents ?temp" by (simp add: wf_contents_def)
  have run: "update_contents ?ws ?temp (CStr ''now'')
       = ([CStr ''now'', CStr ''now'', CStr ''KeyError''], [(''B'', [(''y'', 3)])])"
    by (simp add: Let_def)
  from update_contents_zero_quantity [of CNone ?temp "''B''" "CStr ''now''" "''x''" ?ws] wf
  have "wf_contents (snd (update_contents ?ws ?temp (CStr ''now'')))" by blast
  with wf run show ?thesis by simp
qed



section \<open>Aggregation of the demand\<close>


lemma fold_err_append:
  "fold_err f (xs @ ys) st = (case fold_err f xs st of Inl e \<Rightarrow> Inl e | Inr st' \<Rightarrow> fold_err f ys st')"
  by (induction xs arbitrary: st) (auto split: sum.splits)

lemma fold_err_map: "fold_err f (map g xs) st = fold_err (\<lambda>x. f (g x)) xs st"
  by (induction xs arbitrary: st) (auto split: sum.splits)

lemma process_demand_row_state:
  "map_sum id snd (process_demand_row rnd contents preforms fstock grouped now row st) =
   fold_err (apply_contribution rnd preforms fstock grouped) (entry_contributions contents row) st"
proof -
  obtain date item qty where row: "row = (date, item, qty)" by (cases row)
  have "fold_err (apply_contribution rnd preforms fstock grouped) (map (\<lambda>(elem, pcs). (name, q, elem, pcs)) elems) st
        = fold_err (process_elem rnd preforms fstock grouped name q) elems st" for name q elems
    by (induction elems arbitrary: st) (auto simp: apply_contribution_def split: sum.splits)
  then show ?thesis
    by (auto simp: row split: option.splits cell.splits sum.splits)
qed

lemma aggregate_state:
  "map_sum id snd (aggregate rnd contents preforms fstock grouped now rows st) =
   fold_err (apply_contribution rnd preforms fstock grouped) (contributions contents rows) st"
proof (induction rows arbitrary: st)
  case Nil
  then show ?case by (simp add: contributions_def)
next
  case (Cons row rows)
  show ?case
  proof (cases "process_demand_row rnd contents preforms fstock grouped now row st")
    case (Inl e)
    with process_demand_row_state [of rnd contents preforms fstock grouped now row st]
    have "fold_err (apply_contribution rnd preforms fstock grouped) (entry_contributions contents row) st = Inl e"
      by simp
    with Inl show ?thesis by (simp add: contributions_def fold_err_append)
  next
    case (Inr r)
    obtain d st' where r: "r = (d, st')" by (cases r)
    from Inr r process_demand_row_state [of rnd contents preforms fstock grouped now row st]
    have f: "fold_err (apply_contribution rnd preforms fstock grouped) (entry_contributions contents row) st = Inr st'"
      by simp
    from Cons.IH [of st'] show ?thesis
      using Inr r f
      by (cases "aggregate rnd contents preforms fstock grouped now rows st'")
         (auto simp: contributions_def fold_err_append)
  qed
qed

lemma invalid_entry_contributes_nothing:
  "invalid_entry contents row \<Longrightarrow> entry_contributions contents row = []"
  by (cases row) (auto simp: item_known_def split: option.splits cell.splits)

lemma contributions_filter_invalid:
  "contributions contents (filter (\<lambda>r. \<not> invalid_entry contents r) rows) = contributions contents rows"
  by (induction rows) (auto simp: contributions_def invalid_entry_contributes_nothing)


text \<open>
  Claim C8. An unprocessed demand entry whose item is not in the bill of materials is
  flagged \<open>KeyError\<close>, one whose quantity is not an integer \<open>TypeError\<close>, one whose
  quantity is not positive \<open>ValueError\<close>; the entry leaves \<open>temp\<close> and \<open>memo\<close> unchanged,
  and the aggregation of a demand list equals that of the list without its invalid
  entries. For the entries \<open>[("Widget", 5), ("Unknown", 3)]\<close>, where only \<open>Widget\<close> is
  known, the buckets are those of \<open>[("Widget", 5)]\<close> alone.
\<close>

theorem invalid_entries_isolated:
  "(\<not> truthy date \<and> \<not> item_known contents item \<longrightarrow>
      process_demand_row rnd contents preforms fstock grouped now (date, item, qty) st
        = Inr (CStr ''KeyError'', st))
   \<and> (\<not> truthy date \<and> item_known contents item \<and> (\<forall>q. qty \<noteq> CInt q) \<longrightarrow>
      process_demand_row rnd contents preforms fstock grouped now (date, item, qty) st
        = Inr (CStr ''TypeError'', st))
   \<and> (\<not> truthy date \<and> item_known contents item \<and> q \<le> 0 \<longrightarrow>
      process_demand_row rnd contents preforms fstock grouped now (date, item, CInt q) st
        = Inr (CStr ''ValueError'', st))
   \<and> map_sum id snd (aggregate rnd contents preforms fstock grouped now rows st)
       = map_sum id snd (aggregate rnd contents preforms fstock grouped now
           (filter (\<lambda>r. \<not> invalid_entry contents r) rows) st)
   \<and> map_sum id snd (aggregate rnd [(''Widget'', elems)] preforms fstock grouped now
         [(CNone, Some ''Widget'', CInt 5), (CNone, Some ''Unknown'', CInt 3)] ([], []))
       = map_sum id snd (aggregate rnd [(''Widget'', elems)] preforms fstock grouped now
         [(CNone, Some ''Widget'', CInt 5)] ([], []))
   \<and> aggregate fl64 [(''Widget'', [(''x'', 2)])]
        [(''x'', \<lparr>pf_a = 500, pf_b = 500, pf_sheet = ''S''\<rparr>)]
        [(''S'', \<lparr>fs_d = 1, fs_W = 1000, fs_L = 2000, fs_rho = 1\<rparr>)] [] ''t''
        [(CNone, Some ''Widget'', CInt 5), (CNone, Some ''Unknown'', CInt 3)] ([], [])
       = Inr ([CStr ''t'', CStr ''KeyError''],
              [(''S'', [(''single'', [(''x'', 5 / 4)])])],
              [(''x'', \<lparr>me_pps = 8, me_demand = 10, me_items = [''Widget'']\<rparr>)])
   \<and> aggregate fl64 [(''Widget'', [(''x'', 2)])]
        [(''x'', \<lparr>pf_a = 500, pf_b = 500, pf_sheet = ''S''\<rparr>)]
        [(''S'', \<lparr>fs_d = 1, fs_W = 1000, fs_L = 2000, fs_rho = 1\<rparr>)] [] ''t''
        [(CNone, Some ''Widget'', CInt 5)] ([], [])
       = Inr ([CStr ''t''],
              [(''S'', [(''single'', [(''x'', 5 / 4)])])],
              [(''x'', \<lparr>me_pps = 8, me_demand = 10, me_items = [''Widget'']\<rparr>)])"
proof -
  have a: "\<not> truthy date \<and> \<not> item_known contents item \<longrightarrow>
      process_demand_row rnd contents preforms fstock grouped now (date, item, qty) st
        = Inr (CStr ''KeyError'', st)"
    by (auto simp: item_known_def split: option.splits)
  have b: "\<not> truthy date \<and> item_known contents item \<and> (\<forall>q. qty \<noteq> CInt q) \<longrightarrow>
      process_demand_row rnd contents preforms fstock grouped now (date, item, qty) st
        = Inr (CStr ''TypeError'', st)"
    by (cases qty) (auto simp: item_known_def split: option.splits)
  have c: "\<not> truthy date \<and> item_known contents item \<and> q \<le> 0 \<longrightarrow>
      process_demand_row rnd contents preforms fstock grouped now (date, item, CInt q) st
        = Inr (CStr ''ValueError'', st)"
    by (auto simp: item_known_def split: option.splits)
  have d: "map_sum id snd (aggregate rnd contents' preforms fstock grouped now rows' st')
       = map_sum id snd (aggregate rnd contents' preforms fstock grouped now
           (filter (\<lambda>r. \<not> invalid_entry contents' r) rows') st')" for contents' rows' st'
    by (simp only: aggregate_state contributions_filter_invalid)
  have "filter (\<lambda>r. \<not> invalid_entry [(''Widget'', elems)] r)
          [(CNone, Some ''Widget'', CInt 5), (CNone, Some ''Unknown'', CInt 3)]
        = [(CNone, Some ''Widget'', CInt 5)]"
    by (simp add: item_known_def)
  with d [where contents' = "[(''Widget'', elems)]"
      and rows' = "[(CNone, Some ''Widget'', CInt 5), (CNone, Some ''Unknown'', CInt 3)]"
      and st' = "([], [])"]
  have e: "map_sum id snd (aggregate rnd [(''Widget'', elems)] preforms fstock grouped now
         [(CNone, Some ''Widget'', CInt 5), (CNone, Some ''Unknown'', CInt 3)] ([], []))
       = map_sum id snd (aggregate rnd [(''Widget'', elems)] preforms fstock grouped now
         [(CNone, Some ''Widget'', CInt 5)] ([], []))"
    by simp
  have f: "aggregate fl64 [(''Widget'', [(''x'', 2)])]
        [(''x'', \<lparr>pf_a = 500, pf_b = 500, pf_sheet = ''S''\<rparr>)]
        [(''S'', \<lparr>fs_d = 1, fs_W = 1000, fs_L = 2000, fs_rho = 1\<rparr>)] [] ''t''
        [(CNone, Some ''Widget'', CInt 5), (CNone, Some ''Unknown'', CInt 3)] ([], [])
       = Inr ([CStr ''t'', CStr ''KeyError''],
              [(''S'', [(''single'', [(''x'', 5 / 4)])])],
              [(''x'', \<lparr>me_pps = 8, me_demand = 10, me_items = [''Widget'']\<rparr>)])"
    by code_simp
  have g: "aggregate fl64 [(''Widget'', [(''x'', 2)])]
        [(''x'', \<lparr>pf_a = 500, pf_b = 500, pf_sheet = ''S''\<rparr>)]
        [(''S'', \<lparr>fs_d = 1, fs_W = 1000, fs_L = 2000, fs_rho = 1\<rparr>)] [] ''t''
        [(CNone, Some ''Widget'', CInt 5)] ([], [])
       = Inr ([CStr ''t''],
              [(''S'', [(''single'', [(''x'', 5 / 4)])])],
              [(''x'', \<lparr>me_pps = 8, me_demand = 10, me_items = [''Widget'']\<rparr>)])"
    by code_simp
  from a b c d e f g show ?thesis by blast
qed

theorem invalid_entries_isolated_witness:
  "\<not> truthy CNone \<and> \<not> item_known [(''Widget'', [(''x'', 2)])] (Some ''Unknown'')
   \<and> item_known [(''Widget'', [(''x'', 2)])] (Some ''Widget'')
   \<and> process_demand_row fl64 [(''Widget'', [(''x'', 2)])] [] [] [] ''t''
        (CNone, Some ''Unknown'', CInt 3) ([], []) = Inr (CStr ''KeyError'', [], [])
   \<and> process_demand_row fl64 [(''Widget'', [(''x'', 2)])] [] [] [] ''t''
        (CNone, Some ''Widget'', CFloat (5 / 2)) ([], []) = Inr (CStr ''TypeError'', [], [])
   \<and> process_demand_row fl64 [(''Widget'', [(''x'', 2)])] [] [] [] ''t''
        (CNone, Some ''Widget'', CInt (- 1)) ([], []) = Inr (CStr ''ValueError'', [], [])
   \<and> aggregate fl64 [(''Widget'', [(''x'', 2)])]
        [(''x'', \<lparr>pf_a = 500, pf_b = 500, pf_sheet = ''S''\<rparr>)]
        [(''S'', \<lparr>fs_d = 1, fs_W = 1000, fs_L = 2000, fs_rho = 1\<rparr>)] [] ''t''
        [(CNone, Some ''Widget'', CInt 5), (CNone, Some ''Unknown'', CInt 3)] ([], [])
       = Inr ([CStr ''t'', CStr ''KeyError''],
              [(''S'', [(''single'', [(''x'', 5 / 4)])])],
              [(''x'', \<lparr>me_pps = 8, me_demand = 10, me_items = [''Widget'']\<rparr>)])
   \<and> aggregate fl64 [(''Widget'', [(''x'', 2)])]
        [(''x'', \<lparr>pf_a = 500, pf_b = 500, pf_sheet = ''S''\<rparr>)]
        [(''S'', \<lparr>fs_d = 1, fs_W = 1000, fs_L = 2000, fs_rho = 1\<rparr>)] [] ''t''
        [(CNone, Some ''Widget'', CInt 5)] ([], [])
       = Inr ([CStr ''t''],
              [(''S'', [(''single'', [(''x'', 5 / 4)])])],
              [(''x'', \<lparr>me_pps = 8, me_demand = 10, me_items = [''Widget'']\<rparr>)])"
proof -
  have h1: "\<not> truthy CNone" by simp
  have h2: "\<not> item_known [(''Widget'', [(''x'', 2)])] (Some ''Unknown'')"
    by (simp add: item_known_def)
  have h3: "item_known [(''Widget'', [(''x'', 2)])] (Some ''Widget'')"
    by (simp add: item_known_def)
  have h4: "\<forall>q. CFloat (5 / 2) \<noteq> CInt q" by simp
  have h5: "(- 1 :: int) \<le> 0" by simp
  from invalid_entries_isolated
    [where date = CNone and contents = "[(''Widget'', [(''x'', 2)])]" and item = "Some ''Unknown''"
      and rnd = fl64 and preforms = "[]" and fstock = "[]" and grouped = "[]" and now = "''t''"
      and qty = "CInt 3" and st = "([], [])"]
    h1 h2
  have k: "process_demand_row fl64 [(''Widget'', [(''x'', 2)])] [] [] [] ''t''
        (CNone, Some ''Unknown'', CInt 3) ([], []) = Inr (CStr ''KeyError'', [], [])"
    by blast
  from invalid_entries_isolated
    [where date = CNone and contents = "[(''Widget'', [(''x'', 2)])]" and item = "Some ''Widget''"
      and rnd = fl64 and preforms = "[]" and fstock = "[]" and grouped = "[]" and now = "''t''"
      and qty = "CFloat (5 / 2)" and st = "([], [])"]
    h1 h3 h4
  have t: "process_demand_row fl64 [(''Widget'', [(''x'', 2)])] [] [] [] ''t''
        (CNone, Some ''Widget'', CFloat (5 / 2)) ([], []) = Inr (CStr ''TypeError'', [], [])"
    by blast
  from invalid_entries_isolated
    [where date = CNone and contents = "[(''Widget'', [(''x'', 2)])]" and item = "Some ''Widget''"
      and rnd = fl64 and preforms = "[]" and fstock = "[]" and grouped = "[]" and now = "''t''"
      and st = "([], [])" and q = "- 1"]
    h1 h3 h5
  have v: "process_demand_row fl64 [(''Widget'', [(''x'', 2)])] [] [] [] ''t''
        (CNone, Some ''Widget'', CInt (- 1)) ([], []) = Inr (CStr ''ValueError'', [], [])"
    by blast
  from invalid_entries_isolated [where rnd = fl64]
  have e1: "aggregate fl64 [(''Widget'', [(''x'', 2)])]
        [(''x'', \<lparr>pf_a = 500, pf_b = 500, pf_sheet = ''S''\<rparr>)]
        [(''S'', \<lparr>fs_d = 1, fs_W = 1000, fs_L = 2000, fs_rho = 1\<rparr>)] [] ''t''
        [(CNone, Some ''Widget'', CInt 5), (CNone, Some ''Unknown'', CInt 3)] ([], [])
       = Inr ([CStr ''t'', CStr ''KeyError''],
              [(''S'', [(''single'', [(''x'', 5 / 4)])])],
              [(''x'', \<lparr>me_pps = 8, me_demand = 10, me_items = [''Widget'']\<rparr>)])"
    by blast
  from invalid_entries_isolated [where rnd = fl64]
  have e2: "aggregate fl64 [(''Widget'', [(''x'', 2)])]
        [(''x'', \<lparr>pf_a = 500, pf_b = 500, pf_sheet = ''S''\<rparr>)]
        [(''S'', \<lparr>fs_d = 1, fs_W = 1000, fs_L = 2000, fs_rho = 1\<rparr>)] [] ''t''
        [(CNone, Some ''Widget'', CInt 5)] ([], [])
       = Inr ([CStr ''t''],
              [(''S'', [(''single'', [(''x'', 5 / 4)])])],
              [(''x'', \<lparr>me_pps = 8, me_demand = 10, me_items = [''Widget'']\<rparr>)])"
    by blast
  from h1 h2 h3 k t v e1 e2 show ?thesis by blast
qed


subsection \<open>Resolved contributions\<close>

lemma resolve_pps:
  "resolve rnd preforms fstock grouped c = Inr rc \<Longrightarrow>
   elem_pps preforms fstock (rc_elem rc) = Inr (rc_pps rc) \<and> rc_pps rc \<noteq> 0"
  by (cases c) (auto simp: resolve_def elem_pps_def split: option.splits sum.splits if_splits)

lemma resolve_fields:
  "resolve rnd preforms fstock grouped (name, q, elem, pcs) = Inr rc \<Longrightarrow>
   rc_elem rc = elem \<and> rc_item rc = name"
  by (auto simp: resolve_def split: option.splits sum.splits if_splits)

lemma apply_contribution_resolve:
  assumes "memo_ok preforms fstock memo"
  shows "apply_contribution rnd preforms fstock grouped c (temp, memo) =
    (case resolve rnd preforms fstock grouped c of
       Inl e \<Rightarrow> Inl e
     | Inr rc \<Rightarrow> Inr (add_contribution rnd rc (temp, memo)))"
proof -
  obtain name q elem pcs where c: "c = (name, q, elem, pcs)" by (cases c)
  show ?thesis
  proof (cases "map_of preforms elem")
    case None
    then show ?thesis
      by (simp add: c apply_contribution_def process_elem_def resolve_def)
  next
    case (Some pf)
    note pf = this
    show ?thesis
    proof (cases "get_pps (pf_a pf) (pf_b pf) (pf_sheet pf) fstock")
      case (Inl e)
      with pf show ?thesis
        by (simp add: c apply_contribution_def process_elem_def resolve_def)
    next
      case (Inr pps)
      have cached: "(case map_of memo elem of None \<Rightarrow> pps | Some me \<Rightarrow> me_pps me) = pps"
      proof (cases "map_of memo elem")
        case None
        then show ?thesis by simp
      next
        case (Some me)
        with assms have "elem_pps preforms fstock elem = Inr (me_pps me)"
          by (simp add: memo_ok_def)
        with pf Inr Some show ?thesis by (simp add: elem_pps_def)
      qed
      have "process_elem rnd preforms fstock grouped name q (elem, pcs) (temp, memo) =
        (if pps = 0 then Inl ZeroDivisionError
         else Inr (add_contribution rnd
           \<lparr>rc_sheet = pf_sheet pf,
            rc_mode = (if has_marker name grouped then ''grouped'' else ''single''),
            rc_elem = elem, rc_frac = rnd (of_int (q * pcs) / of_int pps),
            rc_dem = q * pcs, rc_item = name, rc_pps = pps\<rparr> (temp, memo)))"
        using pf Inr cached
        by (cases "map_of memo elem")
          (simp_all add: process_elem_def Let_def add_contribution_def cong: option.case_cong)
      moreover have "resolve rnd preforms fstock grouped c =
        (if pps = 0 then Inl ZeroDivisionError
         else Inr \<lparr>rc_sheet = pf_sheet pf,
            rc_mode = (if has_marker name grouped then ''grouped'' else ''single''),
            rc_elem = elem, rc_frac = rnd (of_int (q * pcs) / of_int pps),
            rc_dem = q * pcs, rc_item = name, rc_pps = pps\<rparr>)"
        using pf Inr by (simp add: c resolve_def)
      ultimately show ?thesis
        by (simp add: c apply_contribution_def)
    qed
  qed
qed

lemma add_contribution_memo_ok:
  assumes "memo_ok preforms fstock memo"
    and "elem_pps preforms fstock (rc_elem rc) = Inr (rc_pps rc)"
  shows "memo_ok preforms fstock (snd (add_contribution rnd rc (temp, memo)))"
  using assms
  by (auto simp: memo_ok_def add_contribution_def Let_def AList.update_conv'
      split: option.splits if_splits)

lemma fold_err_resolve:
  "memo_ok preforms fstock (snd st) \<Longrightarrow>
   fold_err (apply_contribution rnd preforms fstock grouped) cs st =
     (case map_err (resolve rnd preforms fstock grouped) cs of
        Inl e \<Rightarrow> Inl e
      | Inr rcs \<Rightarrow> Inr (fold (add_contribution rnd) rcs st))"
proof (induction cs arbitrary: st)
  case Nil
  then show ?case by simp
next
  case (Cons c cs)
  obtain temp memo where st: "st = (temp, memo)" by (cases st)
  from Cons.prems st have ok: "memo_ok preforms fstock memo" by simp
  show ?case
  proof (cases "resolve rnd preforms fstock grouped c")
    case (Inl e)
    then show ?thesis
      by (simp add: st apply_contribution_resolve [OF ok])
  next
    case (Inr rc)
    from resolve_pps [OF Inr] add_contribution_memo_ok [OF ok]
    have "memo_ok preforms fstock (snd (add_contribution rnd rc (temp, memo)))" by blast
    from Cons.IH [OF this] Inr show ?thesis
      by (simp add: st apply_contribution_resolve [OF ok] split: sum.splits)
  qed
qed

lemma map_err_Inr_iff:
  "map_err f xs = Inr ys \<longleftrightarrow> (\<forall>x \<in> set xs. \<exists>y. f x = Inr y) \<and> ys = map (\<lambda>x. projr (f x)) xs"
proof (induction xs arbitrary: ys)
  case Nil
  then show ?case by auto
next
  case (Cons x xs)
  show ?case
  proof (cases "f x")
    case (Inl e)
    then show ?thesis by auto
  next
    case (Inr y)
    show ?thesis
    proof (cases "map_err f xs")
      case (Inl e)
      with Inr Cons.IH show ?thesis by auto
    next
      case Inr2: (Inr zs)
      with Inr Cons.IH [of zs] show ?thesis by auto
    qed
  qed
qed

lemma map_err_perm:
  assumes "mset xs' = mset xs" and "map_err f xs = Inr ys"
  shows "\<exists>ys'. map_err f xs' = Inr ys' \<and> mset ys' = mset ys"
proof -
  from assms(1) have set: "set xs' = set xs" by (rule mset_eq_setD)
  from assms(2) have ok: "\<forall>x \<in> set xs. \<exists>y. f x = Inr y" and ys: "ys = map (\<lambda>x. projr (f x)) xs"
    by (simp_all add: map_err_Inr_iff)
  from ok set have "map_err f xs' = Inr (map (\<lambda>x. projr (f x)) xs')"
    by (simp add: map_err_Inr_iff)
  moreover have "mset (map (\<lambda>x. projr (f x)) xs') = mset ys"
    using assms(1) ys by simp
  ultimately show ?thesis by blast
qed

lemma contributions_perm:
  assumes "mset rows' = mset rows"
  shows "mset (contributions contents rows') = mset (contributions contents rows)"
proof -
  have "mset (contributions contents rs) = (\<Sum>r\<in>#mset rs. mset (entry_contributions contents r))" for rs
    by (induction rs) (simp_all add: contributions_def)
  with assms show ?thesis by simp
qed

lemma bucket_add_contribution:
  "bucket (fst (add_contribution rnd rc (temp, memo))) s m e =
     (if rc_sheet rc = s \<and> rc_mode rc = m \<and> rc_elem rc = e
      then Some (case bucket temp s m e of None \<Rightarrow> rc_frac rc | Some x \<Rightarrow> rnd (rc_frac rc + x))
      else bucket temp s m e)"
  by (simp add: bucket_def add_contribution_def Let_def AList.update_conv' split: option.splits)

lemma items_add_contribution:
  "map_option me_items (map_of (snd (add_contribution rnd rc (temp, memo))) e) =
     (if rc_elem rc = e
      then Some ((case map_of memo e of None \<Rightarrow> [] | Some me \<Rightarrow> me_items me) @ [rc_item rc])
      else map_option me_items (map_of memo e))"
  by (simp add: add_contribution_def Let_def AList.update_conv' split: option.splits)

lemma bucket_fold:
  "bucket (fst (fold (add_contribution rnd) rcs st)) s m e =
     (case bucket (fst st) s m e of
        None \<Rightarrow> accumulate rnd
          (map rc_frac (filter (\<lambda>rc. rc_sheet rc = s \<and> rc_mode rc = m \<and> rc_elem rc = e) rcs))
      | Some b \<Rightarrow> Some (foldl (\<lambda>total y. rnd (y + total)) b
          (map rc_frac (filter (\<lambda>rc. rc_sheet rc = s \<and> rc_mode rc = m \<and> rc_elem rc = e) rcs))))"
proof (induction rcs arbitrary: st)
  case Nil
  then show ?case by (simp split: option.splits)
next
  case (Cons rc rcs)
  obtain temp memo where st: "st = (temp, memo)" by (cases st)
  show ?case
    using Cons.IH [of "add_contribution rnd rc (temp, memo)"]
    by (simp add: st bucket_add_contribution split: option.splits)
qed

lemma items_fold:
  "map_option me_items (map_of (snd (fold (add_contribution rnd) rcs st)) e) =
     (let xs = filter (\<lambda>rc. rc_elem rc = e) rcs
      in if xs = [] then map_option me_items (map_of (snd st) e)
         else Some ((case map_of (snd st) e of None \<Rightarrow> [] | Some me \<Rightarrow> me_items me)
                    @ map rc_item xs))"
proof (induction rcs arbitrary: st)
  case Nil
  then show ?case by simp
next
  case (Cons rc rcs)
  obtain temp memo where st: "st = (temp, memo)" by (cases st)
  have *: "(case map_of (snd (add_contribution rnd rc (temp, memo))) e of None \<Rightarrow> [] | Some me \<Rightarrow> me_items me)
      = (case map_option me_items (map_of (snd (add_contribution rnd rc (temp, memo))) e) of
           None \<Rightarrow> [] | Some is \<Rightarrow> is)"
    by (simp split: option.splits)
  show ?case
    using Cons.IH [of "add_contribution rnd rc (temp, memo)"]
    unfolding *
    by (auto simp: st Let_def items_add_contribution split: option.splits)
qed

lemma resolved_items:
  "map_err (resolve rnd preforms fstock grouped) cs = Inr rcs \<Longrightarrow>
   map rc_item (filter (\<lambda>rc. rc_elem rc = e) rcs) =
   map fst (filter (\<lambda>(name, q, elem, pcs). elem = e) cs)"
proof (induction cs arbitrary: rcs)
  case Nil
  then show ?case by simp
next
  case (Cons c cs)
  obtain name q elem pcs where c: "c = (name, q, elem, pcs)" by (cases c)
  from Cons.prems obtain rc rcs' where
    rc: "resolve rnd preforms fstock grouped c = Inr rc"
    and rest: "map_err (resolve rnd preforms fstock grouped) cs = Inr rcs'"
    and rcs: "rcs = rc # rcs'"
    by (auto split: sum.splits)
  from resolve_fields [of rnd preforms fstock grouped name q elem pcs rc] rc c
  have "rc_elem rc = elem" "rc_item rc = name" by simp_all
  with Cons.IH [OF rest] show ?case by (simp add: rcs c)
qed

lemma aggregate_resolved:
  assumes "aggregate rnd contents preforms fstock grouped now rows ([], []) = Inr (dates, temp, memo)"
  shows "\<exists>rcs. map_err (resolve rnd preforms fstock grouped) (contributions contents rows) = Inr rcs
               \<and> (temp, memo) = fold (add_contribution rnd) rcs ([], [])"
proof -
  have ok: "memo_ok preforms fstock (snd (([], []) :: type_temp \<times> type_memo))"
    by (simp add: memo_ok_def)
  from assms aggregate_state [of rnd contents preforms fstock grouped now rows "([], [])"]
  have "fold_err (apply_contribution rnd preforms fstock grouped) (contributions contents rows) ([], [])
        = Inr (temp, memo)"
    by simp
  then show ?thesis
    unfolding fold_err_resolve [OF ok] by (auto split: sum.splits)
qed

lemma resolved_aggregate:
  assumes "map_err (resolve rnd preforms fstock grouped) (contributions contents rows) = Inr rcs"
  shows "\<exists>dates. aggregate rnd contents preforms fstock grouped now rows ([], [])
           = Inr (dates, fold (add_contribution rnd) rcs ([], []))"
proof -
  have ok: "memo_ok preforms fstock (snd (([], []) :: type_temp \<times> type_memo))"
    by (simp add: memo_ok_def)
  have "map_sum id snd (aggregate rnd contents preforms fstock grouped now rows ([], []))
        = Inr (fold (add_contribution rnd) rcs ([], []))"
    unfolding aggregate_state fold_err_resolve [OF ok] using assms by simp
  then show ?thesis
    by (cases "aggregate rnd contents preforms fstock grouped now rows ([], [])") auto
qed

lemma accumulate_exact:
  "accumulate exact xs = (if xs = [] then None else Some (sum_list xs))"
proof -
  have "foldl (\<lambda>total y. y + total) a ys = a + sum_list ys" for a :: num and ys
    by (induction ys arbitrary: a) (simp_all add: ac_simps)
  then show ?thesis by (cases xs) simp_all
qed

lemma accumulate_exact_perm:
  assumes "mset xs' = mset xs"
  shows "accumulate exact xs' = accumulate exact xs"
proof -
  from assms have "sum_mset (mset xs') = sum_mset (mset xs)" by simp
  then have "sum_list xs' = sum_list xs" by (simp only: sum_mset_sum_list)
  moreover from assms have "xs' = [] \<longleftrightarrow> xs = []" by (metis mset_zero_iff)
  ultimately show ?thesis by (simp add: accumulate_exact)
qed

subsection \<open>The order of the demand\<close>

lemma aggregate_buckets:
  assumes "aggregate rnd contents preforms fstock grouped now rows ([], []) = Inr (dates, temp, memo)"
  shows "bucket temp s m e
    = accumulate rnd (bucket_contributions rnd contents preforms fstock grouped rows s m e)"
proof -
  from aggregate_resolved [OF assms] obtain rcs where
    rcs: "map_err (resolve rnd preforms fstock grouped) (contributions contents rows) = Inr rcs"
    and st: "(temp, memo) = fold (add_contribution rnd) rcs ([], [])"
    by blast
  from st [symmetric] have t: "fst (fold (add_contribution rnd) rcs ([], [])) = temp" by simp
  have "bucket (fst (([], []) :: type_temp \<times> type_memo)) s m e = None"
    by (simp add: bucket_def)
  with bucket_fold [of rnd rcs "([], [])" s m e] t rcs show ?thesis
    by (simp add: bucket_contributions_def resolved_of_def)
qed

lemma aggregate_items:
  assumes "aggregate rnd contents preforms fstock grouped now rows ([], []) = Inr (dates, temp, memo)"
    and "map_of memo e = Some me"
  shows "me_items me = contributing_items contents rows e"
proof -
  from aggregate_resolved [OF assms(1)] obtain rcs where
    rcs: "map_err (resolve rnd preforms fstock grouped) (contributions contents rows) = Inr rcs"
    and st: "(temp, memo) = fold (add_contribution rnd) rcs ([], [])"
    by blast
  from st [symmetric] have m: "snd (fold (add_contribution rnd) rcs ([], [])) = memo" by simp
  from items_fold [of rnd rcs "([], [])" e] m assms(2)
  have "me_items me = map rc_item (filter (\<lambda>rc. rc_elem rc = e) rcs)"
    by (simp add: Let_def split: if_splits)
  with resolved_items [OF rcs] show ?thesis
    by (simp add: contributing_items_def)
qed

lemma aggregate_perm:
  assumes "mset rows' = mset rows"
    and "aggregate rnd contents preforms fstock grouped now rows ([], []) = Inr (dates, temp, memo)"
  shows "\<exists>dates' temp' memo'.
    aggregate rnd contents preforms fstock grouped now rows' ([], []) = Inr (dates', temp', memo')
    \<and> (\<forall>s m e. mset (bucket_contributions rnd contents preforms fstock grouped rows' s m e)
               = mset (bucket_contributions rnd contents preforms fstock grouped rows s m e))"
proof -
  from aggregate_resolved [OF assms(2)] obtain rcs where
    rcs: "map_err (resolve rnd preforms fstock grouped) (contributions contents rows) = Inr rcs"
    by blast
  from map_err_perm [OF contributions_perm [OF assms(1)] rcs] obtain rcs' where
    rcs': "map_err (resolve rnd preforms fstock grouped) (contributions contents rows') = Inr rcs'"
    and perm: "mset rcs' = mset rcs"
    by blast
  from resolved_aggregate [OF rcs'] obtain dates' where
    "aggregate rnd contents preforms fstock grouped now rows' ([], [])
       = Inr (dates', fold (add_contribution rnd) rcs' ([], []))"
    by blast
  moreover have "mset (bucket_contributions rnd contents preforms fstock grouped rows' s m e)
      = mset (bucket_contributions rnd contents preforms fstock grouped rows s m e)" for s m e
  proof -
    have "mset (map rc_frac (filter P rcs')) = mset (map rc_frac (filter P rcs))" for P
      using perm by (metis mset_filter mset_map)
    then show ?thesis
      by (simp add: bucket_contributions_def resolved_of_def rcs rcs')
  qed
  ultimately show ?thesis
    by (cases "fold (add_contribution rnd) rcs' ([], [])") auto
qed

text \<open>
  Claim C9 says that demand lists that are permutations of each other give equal
  accumulated totals in every bucket. The totals are sums of floats, and float addition
  is commutative but not associative. With three items that each hold one element \<open>x\<close>
  (1, 2 and 3 pieces; 10 preforms per sheet) and demand 1 of each, the list \<open>A, B, C\<close>
  accumulates \<open>0.3 + (0.2 + 0.1) = 0.6000000000000001\<close> and the list \<open>C, B, A\<close>
  accumulates \<open>0.1 + (0.2 + 0.3) = 0.6\<close>.
\<close>

theorem aggregation_float_order_counterexample:
  "mset [(CNone, Some ''C'', CInt 1), (CNone, Some ''B'', CInt 1), (CNone, Some ''A'', CInt 1)]
     = mset [(CNone, Some ''A'', CInt 1), (CNone, Some ''B'', CInt 1), (CNone, Some ''C'', CInt 1)]
   \<and> aggregate fl64
        [(''A'', [(''x'', 1)]), (''B'', [(''x'', 2)]), (''C'', [(''x'', 3)])]
        [(''x'', \<lparr>pf_a = 500, pf_b = 400, pf_sheet = ''S''\<rparr>)]
        [(''S'', \<lparr>fs_d = 1, fs_W = 1000, fs_L = 2000, fs_rho = 1\<rparr>)] [] ''t''
        [(CNone, Some ''A'', CInt 1), (CNone, Some ''B'', CInt 1), (CNone, Some ''C'', CInt 1)]
        ([], [])
       = Inr ([CStr ''t'', CStr ''t'', CStr ''t''],
              [(''S'', [(''single'', [(''x'', 1351079888211149 / 2251799813685248)])])],
              [(''x'', \<lparr>me_pps = 10, me_demand = 6, me_items = [''A'', ''B'', ''C'']\<rparr>)])
   \<and> aggregate fl64
        [(''A'', [(''x'', 1)]), (''B'', [(''x'', 2)]), (''C'', [(''x'', 3)])]
        [(''x'', \<lparr>pf_a = 500, pf_b = 400, pf_sheet = ''S''\<rparr>)]
        [(''S'', \<lparr>fs_d = 1, fs_W = 1000, fs_L = 2000, fs_rho = 1\<rparr>)] [] ''t''
        [(CNone, Some ''C'', CInt 1), (CNone, Some ''B'', CInt 1), (CNone, Some ''A'', CInt 1)]
        ([], [])
       = Inr ([CStr ''t'', CStr ''t'', CStr ''t''],
              [(''S'', [(''single'', [(''x'', 5404319552844595 / 9007199254740992)])])],
              [(''x'', \<lparr>me_pps = 10, me_demand = 6, me_items = [''C'', ''B'', ''A'']\<rparr>)])
   \<and> bucket [(''S'', [(''single'', [(''x'', 1351079888211149 / 2251799813685248)])])]
         ''S'' ''single'' ''x''
       \<noteq> bucket [(''S'', [(''single'', [(''x'', 5404319552844595 / 9007199254740992)])])]
         ''S'' ''single'' ''x''"
proof -
  have perm: "mset [(CNone, Some ''C'', CInt 1), (CNone, Some ''B'', CInt 1), (CNone, Some ''A'', CInt (1::int))]
     = mset [(CNone, Some ''A'', CInt 1), (CNone, Some ''B'', CInt 1), (CNone, Some ''C'', CInt 1)]"
    by (simp add: add_mset_commute)
  have abc: "aggregate fl64
        [(''A'', [(''x'', 1)]), (''B'', [(''x'', 2)]), (''C'', [(''x'', 3)])]
        [(''x'', \<lparr>pf_a = 500, pf_b = 400, pf_sheet = ''S''\<rparr>)]
        [(''S'', \<lparr>fs_d = 1, fs_W = 1000, fs_L = 2000, fs_rho = 1\<rparr>)] [] ''t''
        [(CNone, Some ''A'', CInt 1), (CNone, Some ''B'', CInt 1), (CNone, Some ''C'', CInt 1)]
        ([], [])
       = Inr ([CStr ''t'', CStr ''t'', CStr ''t''],
              [(''S'', [(''single'', [(''x'', 1351079888211149 / 2251799813685248)])])],
              [(''x'', \<lparr>me_pps = 10, me_demand = 6, me_items = [''A'', ''B'', ''C'']\<rparr>)])"
    by code_simp
  have cba: "aggregate fl64
        [(''A'', [(''x'', 1)]), (''B'', [(''x'', 2)]), (''C'', [(''x'', 3)])]
        [(''x'', \<lparr>pf_a = 500, pf_b = 400, pf_sheet = ''S''\<rparr>)]
        [(''S'', \<lparr>fs_d = 1, fs_W = 1000, fs_L = 2000, fs_rho = 1\<rparr>)] [] ''t''
        [(CNone, Some ''C'', CInt 1), (CNone, Some ''B'', CInt 1), (CNone, Some ''A'', CInt 1)]
        ([], [])
       = Inr ([CStr ''t'', CStr ''t'', CStr ''t''],
              [(''S'', [(''single'', [(''x'', 5404319552844595 / 9007199254740992)])])],
              [(''x'', \<lparr>me_pps = 10, me_demand = 6, me_items = [''C'', ''B'', ''A'']\<rparr>)])"
    by code_simp
  have ne: "bucket [(''S'', [(''single'', [(''x'', 1351079888211149 / 2251799813685248)])])]
         ''S'' ''single'' ''x''
       \<noteq> bucket [(''S'', [(''single'', [(''x'', 5404319552844595 / 9007199254740992)])])]
         ''S'' ''single'' ''x''"
    by (simp add: bucket_def)
  from perm abc cba ne show ?thesis by blast
qed

text \<open>
  Claim C9, amended. For every pair of demand lists that are permutations of each other:
  if aggregation of one succeeds, so does aggregation of the other; every
  (sheet, mode, element) bucket holds the total accumulated, in the order in which the
  entries are encountered, from the fractional sheet counts contributed to it, and the
  two lists contribute the same counts to it, as multisets; the items list of each
  element's memo lists the contributing items in the order in which the entries are
  encountered. In exact arithmetic the accumulated totals of the two lists are therefore
  equal in every bucket; on floats they are equal up to the rounding of the additions.
\<close>

theorem aggregation_order:
  assumes "mset rows' = mset rows"
  shows "(\<forall>dates temp memo.
            aggregate rnd contents preforms fstock grouped now rows ([], []) = Inr (dates, temp, memo) \<longrightarrow>
            (\<exists>dates' temp' memo'.
               aggregate rnd contents preforms fstock grouped now rows' ([], [])
                 = Inr (dates', temp', memo')
               \<and> (\<forall>s m e.
                    bucket temp s m e = accumulate rnd
                      (bucket_contributions rnd contents preforms fstock grouped rows s m e)
                  \<and> bucket temp' s m e = accumulate rnd
                      (bucket_contributions rnd contents preforms fstock grouped rows' s m e)
                  \<and> mset (bucket_contributions rnd contents preforms fstock grouped rows' s m e)
                      = mset (bucket_contributions rnd contents preforms fstock grouped rows s m e))
               \<and> (\<forall>e me. map_of memo e = Some me \<longrightarrow>
                    me_items me = contributing_items contents rows e)
               \<and> (\<forall>e me. map_of memo' e = Some me \<longrightarrow>
                    me_items me = contributing_items contents rows' e)))
       \<and> (\<forall>dates temp memo.
            aggregate exact contents preforms fstock grouped now rows ([], []) = Inr (dates, temp, memo) \<longrightarrow>
            (\<exists>dates' temp' memo'.
               aggregate exact contents preforms fstock grouped now rows' ([], [])
                 = Inr (dates', temp', memo')
               \<and> (\<forall>s m e. bucket temp' s m e = bucket temp s m e)))"
proof (intro conjI allI impI)
  fix dates temp memo
  assume a: "aggregate rnd contents preforms fstock grouped now rows ([], []) = Inr (dates, temp, memo)"
  from aggregate_perm [OF assms a] obtain dates' temp' memo' where
    a': "aggregate rnd contents preforms fstock grouped now rows' ([], []) = Inr (dates', temp', memo')"
    and perm: "\<And>s m e. mset (bucket_contributions rnd contents preforms fstock grouped rows' s m e)
               = mset (bucket_contributions rnd contents preforms fstock grouped rows s m e)"
    by blast
  show "\<exists>dates' temp' memo'.
               aggregate rnd contents preforms fstock grouped now rows' ([], [])
                 = Inr (dates', temp', memo')
               \<and> (\<forall>s m e.
                    bucket temp s m e = accumulate rnd
                      (bucket_contributions rnd contents preforms fstock grouped rows s m e)
                  \<and> bucket temp' s m e = accumulate rnd
                      (bucket_contributions rnd contents preforms fstock grouped rows' s m e)
                  \<and> mset (bucket_contributions rnd contents preforms fstock grouped rows' s m e)
                      = mset (bucket_contributions rnd contents preforms fstock grouped rows s m e))
               \<and> (\<forall>e me. map_of memo e = Some me \<longrightarrow>
                    me_items me = contributing_items contents rows e)
               \<and> (\<forall>e me. map_of memo' e = Some me \<longrightarrow>
                    me_items me = contributing_items contents rows' e)"
    using a' perm aggregate_buckets [OF a] aggregate_buckets [OF a']
      aggregate_items [OF a] aggregate_items [OF a']
    by blast
next
  fix dates temp memo
  assume a: "aggregate exact contents preforms fstock grouped now rows ([], []) = Inr (dates, temp, memo)"
  from aggregate_perm [OF assms a] obtain dates' temp' memo' where
    a': "aggregate exact contents preforms fstock grouped now rows' ([], []) = Inr (dates', temp', memo')"
    and perm: "\<And>s m e. mset (bucket_contributions exact contents preforms fstock grouped rows' s m e)
               = mset (bucket_contributions exact contents preforms fstock grouped rows s m e)"
    by blast
  have "bucket temp' s m e = bucket temp s m e" for s m e
    unfolding aggregate_buckets [OF a] aggregate_buckets [OF a']
    by (rule accumulate_exact_perm) (rule perm)
  with a' show "\<exists>dates' temp' memo'.
               aggregate exact contents preforms fstock grouped now rows' ([], [])
                 = Inr (dates', temp', memo')
               \<and> (\<forall>s m e. bucket temp' s m e = bucket temp s m e)"
    by blast
qed

theorem aggregation_order_witness:
  "mset [(CNone, Some ''B'', CInt 1), (CNone, Some ''A'', CInt 1)]
     = mset [(CNone, Some ''A'', CInt 1), (CNone, Some ''B'', CInt 1)]
   \<and> aggregate fl64
        [(''A'', [(''x'', 1)]), (''B'', [(''x'', 2)])]
        [(''x'', \<lparr>pf_a = 500, pf_b = 400, pf_sheet = ''S''\<rparr>)]
        [(''S'', \<lparr>fs_d = 1, fs_W = 1000, fs_L = 2000, fs_rho = 1\<rparr>)] [] ''t''
        [(CNone, Some ''A'', CInt 1), (CNone, Some ''B'', CInt 1)] ([], [])
       = Inr ([CStr ''t'', CStr ''t''],
              [(''S'', [(''single'', [(''x'', 1351079888211149 / 4503599627370496)])])],
              [(''x'', \<lparr>me_pps = 10, me_demand = 3, me_items = [''A'', ''B'']\<rparr>)])
   \<and> aggregate fl64
        [(''A'', [(''x'', 1)]), (''B'', [(''x'', 2)])]
        [(''x'', \<lparr>pf_a = 500, pf_b = 400, pf_sheet = ''S''\<rparr>)]
        [(''S'', \<lparr>fs_d = 1, fs_W = 1000, fs_L = 2000, fs_rho = 1\<rparr>)] [] ''t''
        [(CNone, Some ''B'', CInt 1), (CNone, Some ''A'', CInt 1)] ([], [])
       = Inr ([CStr ''t'', CStr ''t''],
              [(''S'', [(''single'', [(''x'', 1351079888211149 / 4503599627370496)])])],
              [(''x'', \<lparr>me_pps = 10, me_demand = 3, me_items = [''B'', ''A'']\<rparr>)])
   \<and> accumulate fl64 (bucket_contributions fl64
        [(''A'', [(''x'', 1)]), (''B'', [(''x'', 2)])]
        [(''x'', \<lparr>pf_a = 500, pf_b = 400, pf_sheet = ''S''\<rparr>)]
        [(''S'', \<lparr>fs_d = 1, fs_W = 1000, fs_L = 2000, fs_rho = 1\<rparr>)] []
        [(CNone, Some ''A'', CInt 1), (CNone, Some ''B'', CInt 1)] ''S'' ''single'' ''x'')
       = Some (1351079888211149 / 4503599627370496)
   \<and> accumulate fl64 (bucket_contributions fl64
        [(''A'', [(''x'', 1)]), (''B'', [(''x'', 2)])]
        [(''x'', \<lparr>pf_a = 500, pf_b = 400, pf_sheet = ''S''\<rparr>)]
        [(''S'', \<lparr>fs_d = 1, fs_W = 1000, fs_L = 2000, fs_rho = 1\<rparr>)] []
        [(CNone, Some ''B'', CInt 1), (CNone, Some ''A'', CInt 1)] ''S'' ''single'' ''x'')
       = Some (1351079888211149 / 4503599627370496)
   \<and> contributing_items [(''A'', [(''x'', 1)]), (''B'', [(''x'', 2)])]
        [(CNone, Some ''A'', CInt 1), (CNone, Some ''B'', CInt 1)] ''x'' = [''A'', ''B'']
   \<and> contributing_items [(''A'', [(''x'', 1)]), (''B'', [(''x'', 2)])]
        [(CNone, Some ''B'', CInt 1), (CNone, Some ''A'', CInt 1)] ''x'' = [''B'', ''A'']"
proof -
  let ?C = "[(''A'', [(''x'', 1)]), (''B'', [(''x'', 2)])] :: type_contents"
  let ?P = "[(''x'', \<lparr>pf_a = 500, pf_b = 400, pf_sheet = ''S''\<rparr>)] :: type_preforms"
  let ?F = "[(''S'', \<lparr>fs_d = 1, fs_W = 1000, fs_L = 2000, fs_rho = 1\<rparr>)] :: type_feedstock"
  let ?ab = "[(CNone, Some ''A'', CInt 1), (CNone, Some ''B'', CInt 1)] :: demand_row list"
  let ?ba = "[(CNone, Some ''B'', CInt 1), (CNone, Some ''A'', CInt 1)] :: demand_row list"
  have perm: "mset ?ba = mset ?ab"
    by (simp add: add_mset_commute)
  have ab: "aggregate fl64 ?C ?P ?F [] ''t'' ?ab ([], [])
       = Inr ([CStr ''t'', CStr ''t''],
              [(''S'', [(''single'', [(''x'', 1351079888211149 / 4503599627370496)])])],
              [(''x'', \<lparr>me_pps = 10, me_demand = 3, me_items = [''A'', ''B'']\<rparr>)])"
    by code_simp
  have ba: "aggregate fl64 ?C ?P ?F [] ''t'' ?ba ([], [])
       = Inr ([CStr ''t'', CStr ''t''],
              [(''S'', [(''single'', [(''x'', 1351079888211149 / 4503599627370496)])])],
              [(''x'', \<lparr>me_pps = 10, me_demand = 3, me_items = [''B'', ''A'']\<rparr>)])"
    by code_simp
  from aggregation_order [OF perm, of fl64 ?C ?P ?F "[]" "''t''"] ab
  obtain dates' temp' memo' where
    a': "aggregate fl64 ?C ?P ?F [] ''t'' ?ba ([], []) = Inr (dates', temp', memo')"
    and b1: "bucket [(''S'', [(''single'', [(''x'', 1351079888211149 / 4503599627370496)])])] ''S'' ''single'' ''x''
          = accumulate fl64 (bucket_contributions fl64 ?C ?P ?F [] ?ab ''S'' ''single'' ''x'')"
    and b2': "bucket temp' ''S'' ''single'' ''x''
          = accumulate fl64 (bucket_contributions fl64 ?C ?P ?F [] ?ba ''S'' ''single'' ''x'')"
    and i1: "\<And>e me. map_of [(''x'', \<lparr>me_pps = 10, me_demand = 3, me_items = [''A'', ''B'']\<rparr>)] e = Some me
          \<Longrightarrow> me_items me = contributing_items ?C ?ab e"
    and i2': "\<And>e me. map_of memo' e = Some me \<Longrightarrow> me_items me = contributing_items ?C ?ba e"
    by blast
  from a' [unfolded ba]
  have t': "temp' = [(''S'', [(''single'', [(''x'', 1351079888211149 / 4503599627370496)])])]"
    and m': "memo' = [(''x'', \<lparr>me_pps = 10, me_demand = 3, me_items = [''B'', ''A'']\<rparr>)]"
    by simp_all
  note b2 = b2' [unfolded t'] and i2 = i2' [unfolded m']
  from b1 have c1: "accumulate fl64 (bucket_contributions fl64 ?C ?P ?F [] ?ab ''S'' ''single'' ''x'')
      = Some (1351079888211149 / 4503599627370496)"
    by (simp add: bucket_def)
  from b2 have c2: "accumulate fl64 (bucket_contributions fl64 ?C ?P ?F [] ?ba ''S'' ''single'' ''x'')
      = Some (1351079888211149 / 4503599627370496)"
    by (simp add: bucket_def)
  from i1 [of "''x''"] have d1: "contributing_items ?C ?ab ''x'' = [''A'', ''B'']" by simp
  from i2 [of "''x''"] have d2: "contributing_items ?C ?ba ''x'' = [''B'', ''A'']" by simp
  from perm ab ba c1 c2 d1 d2 show ?thesis by blast
qed

subsection \<open>The state after the aggregation\<close>

lemma add_contribution_wf:
  assumes "wf_temp temp"
  shows "wf_temp (fst (add_contribution rnd rc (temp, memo)))"
proof -
  let ?sd = "case map_of temp (rc_sheet rc) of None \<Rightarrow> [] | Some sd \<Rightarrow> sd"
  let ?c = "case map_of ?sd (rc_mode rc) of None \<Rightarrow> [] | Some c \<Rightarrow> c"
  let ?Q = "\<lambda>(mode :: string, md :: (string, num) dict). distinct (map fst md)"
  let ?P = "\<lambda>(sheet :: string, sd :: (string, (string, num) dict) dict).
              distinct (map fst sd) \<and> list_all ?Q sd"
  from assms have d: "distinct (map fst temp)" and a: "list_all ?P temp"
    by (simp_all add: wf_temp_def)
  have sd: "distinct (map fst ?sd) \<and> list_all ?Q ?sd"
  proof (cases "map_of temp (rc_sheet rc)")
    case None
    then show ?thesis by simp
  next
    case (Some sd)
    from list_all_map_of [OF a Some] Some show ?thesis by simp
  qed
  have c: "distinct (map fst ?c)"
  proof (cases "map_of ?sd (rc_mode rc)")
    case None
    then show ?thesis by simp
  next
    case (Some c)
    from sd have "list_all ?Q ?sd" by simp
    from list_all_map_of [OF this Some] Some show ?thesis by simp
  qed
  have "fst (add_contribution rnd rc (temp, memo)) =
      AList.update (rc_sheet rc)
        (AList.update (rc_mode rc)
           (AList.update (rc_elem rc)
              (case map_of ?c (rc_elem rc) of None \<Rightarrow> rc_frac rc | Some x \<Rightarrow> rnd (rc_frac rc + x)) ?c)
           ?sd) temp"
    by (simp add: add_contribution_def Let_def)
  moreover have "wf_temp (AList.update (rc_sheet rc) (AList.update (rc_mode rc) c' ?sd) temp)"
    if "distinct (map fst c')" for c'
  proof -
    from sd that have "?P (rc_sheet rc, AList.update (rc_mode rc) c' ?sd)"
      by (simp add: distinct_update list_all_update)
    with a have "list_all ?P (AList.update (rc_sheet rc) (AList.update (rc_mode rc) c' ?sd) temp)"
      by (rule list_all_update)
    with d show ?thesis by (simp add: wf_temp_def distinct_update)
  qed
  ultimately show ?thesis using c by (simp add: distinct_update)
qed

lemma fold_add_contribution_wf:
  "wf_temp (fst st) \<Longrightarrow> wf_temp (fst (fold (add_contribution rnd) rcs st))"
proof (induction rcs arbitrary: st)
  case Nil
  then show ?case by simp
next
  case (Cons rc rcs)
  obtain temp memo where st: "st = (temp, memo)" by (cases st)
  from Cons.prems st have "wf_temp (fst (add_contribution rnd rc (temp, memo)))"
    by (simp add: add_contribution_wf)
  from Cons.IH [OF this] show ?case by (simp add: st)
qed

lemma fold_add_contribution_memo_ok:
  assumes "memo_ok preforms fstock (snd st)"
    and "\<forall>rc \<in> set rcs. elem_pps preforms fstock (rc_elem rc) = Inr (rc_pps rc)"
  shows "memo_ok preforms fstock (snd (fold (add_contribution rnd) rcs st))"
  using assms
proof (induction rcs arbitrary: st)
  case Nil
  then show ?case by simp
next
  case (Cons rc rcs)
  obtain temp memo where st: "st = (temp, memo)" by (cases st)
  from Cons.prems st
  have "memo_ok preforms fstock (snd (add_contribution rnd rc (temp, memo)))"
    by (simp add: add_contribution_memo_ok)
  from Cons.IH [OF this] Cons.prems(2) show ?case by (simp add: st)
qed

lemma aggregate_wf:
  assumes "aggregate rnd contents preforms fstock grouped now rows ([], []) = Inr (dates, temp, memo)"
  shows "wf_temp temp" and "memo_ok preforms fstock memo"
proof -
  from aggregate_resolved [OF assms] obtain rcs where
    rcs: "map_err (resolve rnd preforms fstock grouped) (contributions contents rows) = Inr rcs"
    and st: "(temp, memo) = fold (add_contribution rnd) rcs ([], [])"
    by blast
  from st [symmetric] have t: "fst (fold (add_contribution rnd) rcs ([], [])) = temp"
    and m: "snd (fold (add_contribution rnd) rcs ([], [])) = memo" by simp_all
  have "wf_temp (fst (([], []) :: type_temp \<times> type_memo))"
    by (simp add: wf_temp_def)
  from fold_add_contribution_wf [OF this, of rnd rcs] t show "wf_temp temp" by simp
  have ok: "memo_ok preforms fstock (snd (([], []) :: type_temp \<times> type_memo))"
    by (simp add: memo_ok_def)
  have "\<forall>rc \<in> set rcs. elem_pps preforms fstock (rc_elem rc) = Inr (rc_pps rc)"
  proof
    fix rc assume "rc \<in> set rcs"
    with rcs obtain c where "resolve rnd preforms fstock grouped c = Inr rc"
      by (auto simp: map_err_Inr_iff)
    from resolve_pps [OF this] show "elem_pps preforms fstock (rc_elem rc) = Inr (rc_pps rc)"
      by simp
  qed
  from fold_add_contribution_memo_ok [OF ok this, of rnd] m
  show "memo_ok preforms fstock memo" by simp
qed

lemma bucket_mode_dict:
  "bucket temp s m e = (case mode_dict temp s m of None \<Rightarrow> None | Some md \<Rightarrow> map_of md e)"
  by (simp add: bucket_def mode_dict_def split: option.splits)

subsection \<open>The rows of the report\<close>

lemma map_err_member:
  assumes "map_err f xs = Inr rss" and "r \<in> set (concat rss)"
  shows "\<exists>x rows. x \<in> set xs \<and> f x = Inr rows \<and> r \<in> set rows"
  using assms
proof (induction xs arbitrary: rss)
  case Nil
  then show ?case by simp
next
  case (Cons x xs)
  from Cons.prems(1) obtain rows rss' where
    x: "f x = Inr rows" and rest: "map_err f xs = Inr rss'" and rss: "rss = rows # rss'"
    by (auto split: sum.splits)
  from Cons.prems(2) rss have "r \<in> set rows \<or> r \<in> set (concat rss')" by auto
  then show ?case
  proof
    assume "r \<in> set rows"
    with x show ?thesis by auto
  next
    assume "r \<in> set (concat rss')"
    from Cons.IH [OF rest this] show ?thesis by auto
  qed
qed

lemma sorted_map_const:
  "\<forall>r \<in> set rows. g r = k \<Longrightarrow> sorted (map g rows)"
  by (induction rows) auto

lemma sorted_map_err_concat:
  fixes g :: "'r \<Rightarrow> 'k::linorder"
  assumes "map_err f xs = Inr rss"
    and "\<And>x rows. f x = Inr rows \<Longrightarrow> \<forall>r \<in> set rows. g r = fst x"
    and "sorted (map fst xs)"
  shows "sorted (map g (concat rss))"
  using assms(1,3)
proof (induction xs arbitrary: rss)
  case Nil
  then show ?case by simp
next
  case (Cons x xs)
  from Cons.prems(1) obtain rows rss' where
    x: "f x = Inr rows" and rest: "map_err f xs = Inr rss'" and rss: "rss = rows # rss'"
    by (auto split: sum.splits)
  from assms(2) [OF x] have rows: "\<forall>r \<in> set rows. g r = fst x" .
  from Cons.prems(2) have sx: "sorted (map fst xs)" and le: "\<forall>y \<in> set xs. fst x \<le> fst y"
    by simp_all
  have "g a \<le> g b" if "a \<in> set rows" and "b \<in> set (concat rss')" for a b
  proof -
    from map_err_member [OF rest that(2)] obtain y rows' where
      y: "y \<in> set xs" "f y = Inr rows'" "b \<in> set rows'" by blast
    from assms(2) [OF y(2)] y(3) have "g b = fst y" by simp
    with rows that(1) le y(1) show ?thesis by simp
  qed
  with sorted_map_const [OF rows] Cons.IH [OF rest sx] show ?case
    by (auto simp: rss sorted_append)
qed

lemma filter_map_err_concat:
  assumes "map_err f xs = Inr rss"
    and "\<And>x rows. f x = Inr rows \<Longrightarrow> \<forall>r \<in> set rows. g r = fst x"
    and "distinct (map fst xs)"
  shows "filter (\<lambda>r. g r = s) (concat rss) =
    (case map_of xs s of None \<Rightarrow> [] | Some v \<Rightarrow> projr (f (s, v)))"
  using assms(1,3)
proof (induction xs arbitrary: rss)
  case Nil
  then show ?case by simp
next
  case (Cons x xs)
  obtain k v where kv: "x = (k, v)" by (cases x)
  from Cons.prems(1) obtain rows rss' where
    x: "f x = Inr rows" and rest: "map_err f xs = Inr rss'" and rss: "rss = rows # rss'"
    by (auto split: sum.splits)
  from assms(2) [OF x] kv have rows: "\<forall>r \<in> set rows. g r = k" by simp
  from Cons.prems(2) kv have dx: "distinct (map fst xs)" and nk: "k \<notin> fst ` set xs"
    by simp_all
  note IH = Cons.IH [OF rest dx]
  show ?case
  proof (cases "s = k")
    case True
    from nk have "map_of xs k = None" by (simp add: map_of_eq_None_iff)
    with IH True have "filter (\<lambda>r. g r = s) (concat rss') = []" by simp
    moreover from rows True have "filter (\<lambda>r. g r = s) rows = rows" by (simp add: filter_id_conv)
    ultimately show ?thesis using True x kv by (simp add: rss)
  next
    case False
    with rows have "filter (\<lambda>r. g r = s) rows = []" by (auto simp: filter_empty_conv)
    with IH False kv show ?thesis by (simp add: rss)
  qed
qed

lemma map_err_all:
  "map_err f xs = Inr ys \<Longrightarrow> x \<in> set xs \<Longrightarrow> \<exists>y. f x = Inr y"
  by (simp add: map_err_Inr_iff)

lemma report_record_fields:
  assumes "report_record rnd now memo sheet mode (elem, n) = Inr r"
  shows "rr_sheet r = sheet \<and> rr_mode r = mode \<and> rr_elem r = elem
    \<and> (\<exists>me. map_of memo elem = Some me
          \<and> rr_sheets_n r = py_round1 rnd n
          \<and> rr_recomm r = py_int (rnd (n * of_int (me_pps me))))"
  using assms by (auto simp: report_record_def split: option.splits)

lemma report_mode_rows:
  assumes "report_mode rnd now memo sheet (mode, md) = Inr rows"
  shows "\<exists>f. map_of (transformer rnd) mode = Some f
    \<and> map_err (report_record rnd now memo sheet mode) (f md) = Inr rows
    \<and> map rr_elem rows = map fst (f md)
    \<and> (\<forall>r \<in> set rows. rr_sheet r = sheet \<and> rr_mode r = mode)"
proof -
  from assms obtain f where f: "map_of (transformer rnd) mode = Some f"
    and rows: "map_err (report_record rnd now memo sheet mode) (f md) = Inr rows"
    by (auto simp: report_mode_def split: option.splits)
  from rows have ok: "\<forall>x \<in> set (f md). \<exists>y. report_record rnd now memo sheet mode x = Inr y"
    and eq: "rows = map (\<lambda>x. projr (report_record rnd now memo sheet mode x)) (f md)"
    by (simp_all add: map_err_Inr_iff)
  have fld: "rr_sheet (projr (report_record rnd now memo sheet mode x)) = sheet
      \<and> rr_mode (projr (report_record rnd now memo sheet mode x)) = mode
      \<and> rr_elem (projr (report_record rnd now memo sheet mode x)) = fst x"
    if "x \<in> set (f md)" for x
  proof -
    obtain elem n where x: "x = (elem, n)" by (cases x)
    from ok that obtain y where y: "report_record rnd now memo sheet mode x = Inr y" by blast
    from report_record_fields [OF y [unfolded x]] y x show ?thesis by simp
  qed
  have "map rr_elem rows = map fst (f md)"
    unfolding eq by (simp add: fld cong: map_cong)
  moreover have "\<forall>r \<in> set rows. rr_sheet r = sheet \<and> rr_mode r = mode"
    unfolding eq using fld by auto
  ultimately show ?thesis using f rows by blast
qed

lemma report_sheet_rows:
  assumes "report_sheet rnd now memo (sheet, sd) = Inr rows"
  shows "\<exists>rss. map_err (report_mode rnd now memo sheet) sd = Inr rss \<and> rows = concat rss
    \<and> (\<forall>r \<in> set rows. rr_sheet r = sheet)"
proof -
  from assms obtain rss where rss: "map_err (report_mode rnd now memo sheet) sd = Inr rss"
    and rows: "rows = concat rss"
    by (auto simp: report_sheet_def split: sum.splits)
  have "rr_sheet r = sheet" if "r \<in> set rows" for r
  proof -
    from map_err_member [OF rss that [unfolded rows]] obtain x rows' where
      x: "report_mode rnd now memo sheet x = Inr rows'" and r: "r \<in> set rows'" by blast
    obtain mode md where "x = (mode, md)" by (cases x)
    with report_mode_rows [of rnd now memo sheet mode md rows'] x r show ?thesis by auto
  qed
  with rss rows show ?thesis by blast
qed

lemma sort_key_fst_dict:
  fixes d :: "('a::linorder, 'b) dict"
  shows "sorted (map fst (sort_key fst d))"
    and "distinct (map fst (sort_key fst d)) = distinct (map fst d)"
    and "set (sort_key fst d) = set d"
    and "distinct (map fst d) \<Longrightarrow> map_of (sort_key fst d) = map_of d"
proof -
  show "sorted (map fst (sort_key fst d))" by (rule sorted_sort_key)
  have "mset (map fst (sort_key fst d)) = mset (map fst d)" by simp
  then show dist: "distinct (map fst (sort_key fst d)) = distinct (map fst d)"
    by (rule mset_eq_imp_distinct_iff)
  show "set (sort_key fst d) = set d" by simp
  assume "distinct (map fst d)"
  with dist show "map_of (sort_key fst d) = map_of d"
    by (simp add: map_of_inject_set)
qed

lemma sort_nested_dict_props:
  fixes d :: "('a::linorder, ('b::linorder, 'c) dict) dict"
  assumes "distinct (map fst d)"
  shows "sorted (map fst (sort_nested_dict d))"
    and "distinct (map fst (sort_nested_dict d))"
    and "map_of (sort_nested_dict d) s = map_option (sort_key fst) (map_of d s)"
proof -
  let ?m = "map (\<lambda>(key, val). (key, sort_key fst val)) d"
  have fst: "map fst ?m = map fst d" by (induction d) auto
  show "sorted (map fst (sort_nested_dict d))"
    unfolding sort_nested_dict_def by (rule sort_key_fst_dict(1))
  have dm: "distinct (map fst ?m)" unfolding fst by (rule assms)
  then show "distinct (map fst (sort_nested_dict d))"
    unfolding sort_nested_dict_def by (simp only: sort_key_fst_dict(2))
  have "map_of ?m s = map_option (sort_key fst) (map_of d s)"
    by (induction d) auto
  with sort_key_fst_dict(4) [OF dm] show "map_of (sort_nested_dict d) s = map_option (sort_key fst) (map_of d s)"
    by (simp add: sort_nested_dict_def)
qed

text \<open>
  The run of \<open>calculate_sheets_number\<close>, taken apart: the state after the aggregation,
  and for every sheet and mode the rows of the report that belong to them.
\<close>

lemma calculate_sheets_number_parts:
  assumes "calculate_sheets_number rnd contents preforms fstock now ws grouped = Inr (dates, report)"
  shows "\<exists>temp memo.
    aggregate rnd contents preforms fstock (case grouped of None \<Rightarrow> [] | Some g \<Rightarrow> g) now ws ([], [])
      = Inr (dates, temp, memo)
    \<and> wf_temp temp \<and> memo_ok preforms fstock memo
    \<and> sorted (map rr_sheet report)
    \<and> (\<forall>s. case map_of temp s of
          None \<Rightarrow> filter (\<lambda>r. rr_sheet r = s) report = []
        | Some sd \<Rightarrow>
            sorted (map rr_mode (filter (\<lambda>r. rr_sheet r = s) report))
            \<and> (\<forall>m. case map_of sd m of
                  None \<Rightarrow> filter (\<lambda>r. rr_sheet r = s \<and> rr_mode r = m) report = []
                | Some md \<Rightarrow>
                    report_mode rnd now memo s (m, md)
                      = Inr (filter (\<lambda>r. rr_sheet r = s \<and> rr_mode r = m) report)))"
proof -
  let ?g = "case grouped of None \<Rightarrow> [] | Some g \<Rightarrow> g"
  from assms obtain temp memo where
    agg: "aggregate rnd contents preforms fstock ?g now ws ([], []) = Inr (dates, temp, memo)"
    and rep: "report_all rnd now memo (sort_nested_dict temp) = Inr report"
    by (auto simp: calculate_sheets_number_def Let_def split: sum.splits)
  note wf = aggregate_wf [OF agg]
  from wf(1) have dt: "distinct (map fst temp)"
    and at: "list_all (\<lambda>(sheet, sd). distinct (map fst sd) \<and>
                  list_all (\<lambda>(mode, md). distinct (map fst md)) sd) temp"
    by (simp_all add: wf_temp_def)
  let ?T = "sort_nested_dict temp"
  note T = sort_nested_dict_props [OF dt]
  from rep obtain rss where rss: "map_err (report_sheet rnd now memo) ?T = Inr rss"
    and report: "report = concat rss"
    by (auto simp: report_all_def split: sum.splits)
  have sheet_of: "\<forall>r \<in> set rows. rr_sheet r = fst x"
    if "report_sheet rnd now memo x = Inr rows" for x rows
    using report_sheet_rows [of rnd now memo "fst x" "snd x" rows] that by auto
  have mode_of: "\<forall>r \<in> set rows. rr_mode r = fst x"
    if "report_mode rnd now memo s x = Inr rows" for s x rows
    using report_mode_rows [of rnd now memo s "fst x" "snd x" rows] that by auto
  have s1: "sorted (map rr_sheet report)"
    unfolding report by (rule sorted_map_err_concat [OF rss sheet_of T(1)])
  have flt: "filter (\<lambda>r. rr_sheet r = s) report =
      (case map_of ?T s of None \<Rightarrow> [] | Some v \<Rightarrow> projr (report_sheet rnd now memo (s, v)))" for s
    unfolding report by (rule filter_map_err_concat [OF rss sheet_of T(2)])
  have per_sheet: "case map_of temp s of
          None \<Rightarrow> filter (\<lambda>r. rr_sheet r = s) report = []
        | Some sd \<Rightarrow>
            sorted (map rr_mode (filter (\<lambda>r. rr_sheet r = s) report))
            \<and> (\<forall>m. case map_of sd m of
                  None \<Rightarrow> filter (\<lambda>r. rr_sheet r = s \<and> rr_mode r = m) report = []
                | Some md \<Rightarrow>
                    report_mode rnd now memo s (m, md)
                      = Inr (filter (\<lambda>r. rr_sheet r = s \<and> rr_mode r = m) report))" for s
  proof (cases "map_of temp s")
    case None
    with flt [of s] T(3) [of s] show ?thesis by simp
  next
    case (Some sd)
    let ?sd = "sort_key fst sd"
    from list_all_map_of [OF at Some] have dsd: "distinct (map fst sd)" by simp
    from Some T(3) [of s] have Ts: "map_of ?T s = Some ?sd" by simp
    then have "(s, ?sd) \<in> set ?T" by (rule map_of_SomeD)
    from map_err_all [OF rss this] obtain rows where
      rows: "report_sheet rnd now memo (s, ?sd) = Inr rows" by blast
    from flt [of s] Ts rows have frows: "filter (\<lambda>r. rr_sheet r = s) report = rows" by simp
    from report_sheet_rows [OF rows] obtain rss' where
      rss': "map_err (report_mode rnd now memo s) ?sd = Inr rss'" and rows': "rows = concat rss'"
      by blast
    have s2: "sorted (map rr_mode rows)"
      unfolding rows' by (rule sorted_map_err_concat [OF rss' mode_of sort_key_fst_dict(1)])
    have dsd': "distinct (map fst ?sd)" using dsd by (simp only: sort_key_fst_dict(2))
    have flt': "filter (\<lambda>r. rr_mode r = m) rows =
        (case map_of ?sd m of None \<Rightarrow> [] | Some v \<Rightarrow> projr (report_mode rnd now memo s (m, v)))" for m
      unfolding rows' by (rule filter_map_err_concat [OF rss' mode_of dsd'])
    have both: "filter (\<lambda>r. rr_sheet r = s \<and> rr_mode r = m) report = filter (\<lambda>r. rr_mode r = m) rows" for m
      unfolding frows [symmetric] by (simp add: conj_commute)
    have per_mode: "case map_of sd m of
                  None \<Rightarrow> filter (\<lambda>r. rr_sheet r = s \<and> rr_mode r = m) report = []
                | Some md \<Rightarrow>
                    report_mode rnd now memo s (m, md)
                      = Inr (filter (\<lambda>r. rr_sheet r = s \<and> rr_mode r = m) report)" for m
    proof (cases "map_of sd m")
      case None
      with flt' [of m] both [of m] sort_key_fst_dict(4) [OF dsd] show ?thesis by simp
    next
      case (Some md)
      with sort_key_fst_dict(4) [OF dsd] have m: "map_of ?sd m = Some md" by simp
      then have "(m, md) \<in> set ?sd" by (rule map_of_SomeD)
      from map_err_all [OF rss' this] obtain rows'' where
        "report_mode rnd now memo s (m, md) = Inr rows''" by blast
      with flt' [of m] both [of m] m Some show ?thesis by simp
    qed
    from s2 per_mode Some frows show ?thesis by simp
  qed
  from agg wf s1 per_sheet show ?thesis by blast
qed

lemma map_err_image:
  assumes "map_err f xs = Inr ys" and "y \<in> set ys"
  shows "\<exists>x \<in> set xs. f x = Inr y"
proof -
  from assms(1) have ok: "\<forall>x \<in> set xs. \<exists>y. f x = Inr y"
    and ys: "ys = map (\<lambda>x. projr (f x)) xs"
    by (simp_all add: map_err_Inr_iff)
  from assms(2) ys obtain x where x: "x \<in> set xs" and y: "y = projr (f x)" by auto
  from ok x obtain y' where "f x = Inr y'" by blast
  with x y show ?thesis by auto
qed

lemma map_of_ceil_dict_values:
  "map_of (ceil_dict_values d) k = map_option (\<lambda>v. of_int \<lceil>v\<rceil>) (map_of d k)"
  by (induction d) (auto simp: ceil_dict_values_def)

lemma transformer_cases:
  assumes "map_of (transformer rnd) m = Some f"
  shows "(m = ''grouped'' \<and> f = spread_delta rnd) \<or> (m = ''single'' \<and> f = ceil_dict_values)"
  using assms by (auto simp: transformer_def split: if_splits)


subsection \<open>The values of a report row\<close>

text \<open>
  Claim C2 says that the displayed \<open>sheets_n\<close> is the pre-rounding fractional sheet count
  rounded to one decimal. The report loop first replaces the bucket by the result of the
  mode's rounding policy and then reads both the recommended piece count and the
  displayed count from that result. With one item \<open>A\<close> that holds 2 pieces of \<open>x\<close>
  (400 preforms per sheet) and a demand of 100, the bucket holds \<open>0.5\<close>; the row shows
  \<open>sheets_n = 1\<close> (the ceiling) and 400 recommended pieces, while \<open>round(0.5, 1)\<close> is
  \<open>0.5\<close>.
\<close>

theorem report_sheets_n_counterexample:
  "calculate_sheets_number fl64 [(''A'', [(''x'', 2)])]
      [(''x'', \<lparr>pf_a = 100, pf_b = 50, pf_sheet = ''S''\<rparr>)]
      [(''S'', \<lparr>fs_d = 1, fs_W = 1000, fs_L = 2000, fs_rho = 1\<rparr>)] ''t''
      [(CNone, Some ''A'', CInt 100)] None
     = Inr ([CStr ''t''],
            [\<lparr>rr_date = ''t'', rr_sheet = ''S'', rr_mode = ''single'', rr_elem = ''x'',
              rr_items = ''A'', rr_demand = 200, rr_recomm = 400, rr_sheets_n = 1\<rparr>])
   \<and> aggregate fl64 [(''A'', [(''x'', 2)])]
      [(''x'', \<lparr>pf_a = 100, pf_b = 50, pf_sheet = ''S''\<rparr>)]
      [(''S'', \<lparr>fs_d = 1, fs_W = 1000, fs_L = 2000, fs_rho = 1\<rparr>)] [] ''t''
      [(CNone, Some ''A'', CInt 100)] ([], [])
     = Inr ([CStr ''t''],
            [(''S'', [(''single'', [(''x'', 1 / 2)])])],
            [(''x'', \<lparr>me_pps = 400, me_demand = 200, me_items = [''A'']\<rparr>)])
   \<and> bucket [(''S'', [(''single'', [(''x'', 1 / 2)])])] ''S'' ''single'' ''x'' = Some (1 / 2)
   \<and> py_round1 fl64 (1 / 2) = 1 / 2
   \<and> (1 :: num) \<noteq> 1 / 2"
proof -
  have calc: "calculate_sheets_number fl64 [(''A'', [(''x'', 2)])]
      [(''x'', \<lparr>pf_a = 100, pf_b = 50, pf_sheet = ''S''\<rparr>)]
      [(''S'', \<lparr>fs_d = 1, fs_W = 1000, fs_L = 2000, fs_rho = 1\<rparr>)] ''t''
      [(CNone, Some ''A'', CInt 100)] None
     = Inr ([CStr ''t''],
            [\<lparr>rr_date = ''t'', rr_sheet = ''S'', rr_mode = ''single'', rr_elem = ''x'',
              rr_items = ''A'', rr_demand = 200, rr_recomm = 400, rr_sheets_n = 1\<rparr>])"
    by code_simp
  have agg: "aggregate fl64 [(''A'', [(''x'', 2)])]
      [(''x'', \<lparr>pf_a = 100, pf_b = 50, pf_sheet = ''S''\<rparr>)]
      [(''S'', \<lparr>fs_d = 1, fs_W = 1000, fs_L = 2000, fs_rho = 1\<rparr>)] [] ''t''
      [(CNone, Some ''A'', CInt 100)] ([], [])
     = Inr ([CStr ''t''],
            [(''S'', [(''single'', [(''x'', 1 / 2)])])],
            [(''x'', \<lparr>me_pps = 400, me_demand = 200, me_items = [''A'']\<rparr>)])"
    by code_simp
  have b: "bucket [(''S'', [(''single'', [(''x'', 1 / 2)])])] ''S'' ''single'' ''x'' = Some (1 / 2)"
    by (simp add: bucket_def)
  have r: "py_round1 fl64 (1 / 2) = 1 / 2" by code_simp
  from calc agg b r show ?thesis by simp
qed

text \<open>
  Claim C2, amended. For every report row emitted by \<open>calculate_sheets_number\<close>, the row's
  element has a pre-rounding fractional sheet count \<open>v\<close> in the bucket of the row's sheet
  and mode, and a post-distribution sheet count \<open>sheets_n\<close>, which is the value the
  rounding policy of the mode gives the element on that bucket: the ceiling of \<open>v\<close> in
  single mode, the value of \<open>spread_delta\<close> in grouped mode. The displayed \<open>sheets_n\<close>
  field is the post-distribution count rounded to one decimal, and the recommended piece
  count is the same post-distribution count multiplied by the element's preforms per
  sheet, truncated to an integer. The pre-rounding value is not displayed.
\<close>

theorem report_row_values:
  assumes "calculate_sheets_number rnd contents preforms fstock now ws grouped = Inr (dates, report)"
    and "r \<in> set report"
  shows "\<exists>temp memo md f v sheets_n me.
      aggregate rnd contents preforms fstock (case grouped of None \<Rightarrow> [] | Some g \<Rightarrow> g) now ws ([], [])
        = Inr (dates, temp, memo)
    \<and> mode_dict temp (rr_sheet r) (rr_mode r) = Some md
    \<and> bucket temp (rr_sheet r) (rr_mode r) (rr_elem r) = Some v
    \<and> map_of (transformer rnd) (rr_mode r) = Some f
    \<and> map_of (f md) (rr_elem r) = Some sheets_n
    \<and> ((rr_mode r = ''single'' \<and> sheets_n = of_int \<lceil>v\<rceil>)
       \<or> (rr_mode r = ''grouped'' \<and> map_of (spread_delta rnd md) (rr_elem r) = Some sheets_n))
    \<and> map_of memo (rr_elem r) = Some me
    \<and> elem_pps preforms fstock (rr_elem r) = Inr (me_pps me)
    \<and> rr_sheets_n r = py_round1 rnd sheets_n
    \<and> rr_recomm r = py_int (rnd (sheets_n * of_int (me_pps me)))"
proof -
  let ?s = "rr_sheet r" and ?m = "rr_mode r"
  from calculate_sheets_number_parts [OF assms(1)] obtain temp memo where
    agg: "aggregate rnd contents preforms fstock (case grouped of None \<Rightarrow> [] | Some g \<Rightarrow> g) now ws ([], [])
        = Inr (dates, temp, memo)"
    and wf: "wf_temp temp" and ok: "memo_ok preforms fstock memo"
    and per_sheet: "\<And>s. case map_of temp s of
          None \<Rightarrow> filter (\<lambda>r. rr_sheet r = s) report = []
        | Some sd \<Rightarrow>
            sorted (map rr_mode (filter (\<lambda>r. rr_sheet r = s) report))
            \<and> (\<forall>m. case map_of sd m of
                  None \<Rightarrow> filter (\<lambda>r. rr_sheet r = s \<and> rr_mode r = m) report = []
                | Some md \<Rightarrow>
                    report_mode rnd now memo s (m, md)
                      = Inr (filter (\<lambda>r. rr_sheet r = s \<and> rr_mode r = m) report))"
    by blast
  from assms(2) have r1: "r \<in> set (filter (\<lambda>r'. rr_sheet r' = ?s) report)"
    and r2: "r \<in> set (filter (\<lambda>r'. rr_sheet r' = ?s \<and> rr_mode r' = ?m) report)"
    by simp_all
  from per_sheet [of ?s] r1 obtain sd where sd: "map_of temp ?s = Some sd"
    by (cases "map_of temp ?s") auto
  with per_sheet [of ?s]
  have per_mode: "case map_of sd ?m of
                  None \<Rightarrow> filter (\<lambda>r'. rr_sheet r' = ?s \<and> rr_mode r' = ?m) report = []
                | Some md \<Rightarrow>
                    report_mode rnd now memo ?s (?m, md)
                      = Inr (filter (\<lambda>r'. rr_sheet r' = ?s \<and> rr_mode r' = ?m) report)"
    by simp
  from per_mode r2 obtain md where md: "map_of sd ?m = Some md"
    by (cases "map_of sd ?m") auto
  with per_mode have rm: "report_mode rnd now memo ?s (?m, md)
      = Inr (filter (\<lambda>r'. rr_sheet r' = ?s \<and> rr_mode r' = ?m) report)"
    by simp
  from sd md have mdict: "mode_dict temp ?s ?m = Some md" by (simp add: mode_dict_def)
  from wf have "list_all (\<lambda>(sheet, sd). distinct (map fst sd) \<and>
                  list_all (\<lambda>(mode, md). distinct (map fst md)) sd) temp"
    by (simp add: wf_temp_def)
  from list_all_map_of [OF this sd] have "list_all (\<lambda>(mode, md). distinct (map fst md)) sd"
    by simp
  from list_all_map_of [OF this md] have dmd: "distinct (map fst md)" by simp
  from report_mode_rows [OF rm] obtain f where
    f: "map_of (transformer rnd) ?m = Some f"
    and recs: "map_err (report_record rnd now memo ?s ?m) (f md)
      = Inr (filter (\<lambda>r'. rr_sheet r' = ?s \<and> rr_mode r' = ?m) report)"
    by blast
  from map_err_image [OF recs r2] obtain x where
    x: "x \<in> set (f md)" and rx: "report_record rnd now memo ?s ?m x = Inr r" by blast
  obtain elem n where en: "x = (elem, n)" by (cases x)
  from report_record_fields [OF rx [unfolded en]] obtain me where
    elem: "rr_elem r = elem" and me: "map_of memo elem = Some me"
    and shown: "rr_sheets_n r = py_round1 rnd n"
    and recomm: "rr_recomm r = py_int (rnd (n * of_int (me_pps me)))"
    by blast
  from ok me have pps: "elem_pps preforms fstock elem = Inr (me_pps me)"
    by (simp add: memo_ok_def)
  have keys: "map fst (f md) = map fst md \<or> map fst (f md) = map fst (spread_sorted rnd md)"
    using transformer_cases [OF f] spread_delta_keys [OF dmd, of rnd]
    by (auto simp: map_fst_ceil_dict_values)
  with dmd have dfm: "distinct (map fst (f md))"
    by (auto simp: distinct_spread_sorted)
  with x en have n: "map_of (f md) elem = Some n" by simp
  from keys have "fst ` set (f md) = fst ` set md"
  proof
    assume "map fst (f md) = map fst md"
    then have "set (map fst (f md)) = set (map fst md)" by simp
    then show ?thesis by simp
  next
    assume "map fst (f md) = map fst (spread_sorted rnd md)"
    then have "set (map fst (f md)) = set (map fst (spread_sorted rnd md))" by simp
    then show ?thesis by (simp add: spread_sorted_def)
  qed
  with x en have "elem \<in> fst ` set md" by force
  then obtain v where v: "map_of md elem = Some v"
    by (cases "map_of md elem") (auto simp: map_of_eq_None_iff)
  with mdict have b: "bucket temp ?s ?m elem = Some v" by (simp add: bucket_mode_dict)
  have policy: "(?m = ''single'' \<and> n = of_int \<lceil>v\<rceil>)
       \<or> (?m = ''grouped'' \<and> map_of (spread_delta rnd md) elem = Some n)"
    using transformer_cases [OF f] n v by (auto simp: map_of_ceil_dict_values)
  from agg mdict b f n policy me pps shown recomm show ?thesis
    unfolding elem by blast
qed

theorem report_row_values_witness:
  "calculate_sheets_number fl64 [(''A'', [(''x'', 3)])]
      [(''x'', \<lparr>pf_a = 100, pf_b = 50, pf_sheet = ''S''\<rparr>)]
      [(''S'', \<lparr>fs_d = 1, fs_W = 1000, fs_L = 2000, fs_rho = 1\<rparr>)] ''t''
      [(CNone, Some ''A'', CInt 100)] (Some [''a''])
     = Inr ([CStr ''t''],
            [\<lparr>rr_date = ''t'', rr_sheet = ''S'', rr_mode = ''grouped'', rr_elem = ''x'',
              rr_items = ''A'', rr_demand = 300, rr_recomm = 400, rr_sheets_n = 1\<rparr>])
   \<and> \<lparr>rr_date = ''t'', rr_sheet = ''S'', rr_mode = ''grouped'', rr_elem = ''x'',
        rr_items = ''A'', rr_demand = 300, rr_recomm = 400, rr_sheets_n = 1\<rparr>
      \<in> set [\<lparr>rr_date = ''t'', rr_sheet = ''S'', rr_mode = ''grouped'', rr_elem = ''x'',
              rr_items = ''A'', rr_demand = 300, rr_recomm = 400, rr_sheets_n = 1\<rparr>]
   \<and> aggregate fl64 [(''A'', [(''x'', 3)])]
      [(''x'', \<lparr>pf_a = 100, pf_b = 50, pf_sheet = ''S''\<rparr>)]
      [(''S'', \<lparr>fs_d = 1, fs_W = 1000, fs_L = 2000, fs_rho = 1\<rparr>)] [''a''] ''t''
      [(CNone, Some ''A'', CInt 100)] ([], [])
     = Inr ([CStr ''t''],
            [(''S'', [(''grouped'', [(''x'', 3 / 4)])])],
            [(''x'', \<lparr>me_pps = 400, me_demand = 300, me_items = [''A'']\<rparr>)])
   \<and> bucket [(''S'', [(''grouped'', [(''x'', 3 / 4)])])] ''S'' ''grouped'' ''x'' = Some (3 / 4)
   \<and> map_of (spread_delta fl64 [(''x'', 3 / 4)]) ''x'' = Some 1
   \<and> elem_pps [(''x'', \<lparr>pf_a = 100, pf_b = 50, pf_sheet = ''S''\<rparr>)]
        [(''S'', \<lparr>fs_d = 1, fs_W = 1000, fs_L = 2000, fs_rho = 1\<rparr>)] ''x'' = Inr 400
   \<and> py_round1 fl64 1 = 1
   \<and> py_int (fl64 (1 * of_int 400)) = 400"
proof -
  let ?C = "[(''A'', [(''x'', 3)])] :: type_contents"
  let ?P = "[(''x'', \<lparr>pf_a = 100, pf_b = 50, pf_sheet = ''S''\<rparr>)] :: type_preforms"
  let ?F = "[(''S'', \<lparr>fs_d = 1, fs_W = 1000, fs_L = 2000, fs_rho = 1\<rparr>)] :: type_feedstock"
  let ?ws = "[(CNone, Some ''A'', CInt 100)] :: demand_row list"
  let ?r = "\<lparr>rr_date = ''t'', rr_sheet = ''S'', rr_mode = ''grouped'', rr_elem = ''x'',
              rr_items = ''A'', rr_demand = 300, rr_recomm = 400, rr_sheets_n = 1\<rparr>"
  let ?T = "[(''S'', [(''grouped'', [(''x'', 3 / 4)])])] :: type_temp"
  let ?M = "[(''x'', \<lparr>me_pps = 400, me_demand = 300, me_items = [''A'']\<rparr>)] :: type_memo"
  have calc: "calculate_sheets_number fl64 ?C ?P ?F ''t'' ?ws (Some [''a'']) = Inr ([CStr ''t''], [?r])"
    by code_simp
  have mem: "?r \<in> set [?r]" by simp
  have agg: "aggregate fl64 ?C ?P ?F [''a''] ''t'' ?ws ([], []) = Inr ([CStr ''t''], ?T, ?M)"
    by code_simp
  have sd: "spread_delta fl64 [(''x'', 3 / 4)] = [(''x'', 1)]"
    by code_simp
  from report_row_values [OF calc mem] obtain temp memo md f v n me where
    a: "aggregate fl64 ?C ?P ?F (case Some [''a''] of None \<Rightarrow> [] | Some g \<Rightarrow> g) ''t'' ?ws ([], [])
        = Inr ([CStr ''t''], temp, memo)"
    and md: "mode_dict temp (rr_sheet ?r) (rr_mode ?r) = Some md"
    and b: "bucket temp (rr_sheet ?r) (rr_mode ?r) (rr_elem ?r) = Some v"
    and n: "map_of (f md) (rr_elem ?r) = Some n"
    and f: "map_of (transformer fl64) (rr_mode ?r) = Some f"
    and me: "map_of memo (rr_elem ?r) = Some me"
    and pps: "elem_pps ?P ?F (rr_elem ?r) = Inr (me_pps me)"
    and shown: "rr_sheets_n ?r = py_round1 fl64 n"
    and recomm: "rr_recomm ?r = py_int (fl64 (n * of_int (me_pps me)))"
    by blast
  from a have "aggregate fl64 ?C ?P ?F [''a''] ''t'' ?ws ([], []) = Inr ([CStr ''t''], temp, memo)"
    by (simp only: option.case)
  from this [unfolded agg] have t: "temp = ?T" and m: "memo = ?M" by simp_all
  from md have md': "md = [(''x'', 3 / 4)]" by (simp add: t mode_dict_def)
  from f have f': "f = spread_delta fl64" by (simp add: transformer_def)
  from n have n': "n = 1" by (simp add: f' md' sd)
  from me have me': "me_pps me = 400" by (auto simp: m)
  from b have c1: "bucket ?T ''S'' ''grouped'' ''x'' = Some (3 / 4)"
    by (simp add: t bucket_def)
  from n have c2: "map_of (spread_delta fl64 [(''x'', 3 / 4)]) ''x'' = Some 1"
    by (simp add: f' md' n')
  from pps have c3: "elem_pps ?P ?F ''x'' = Inr 400" by (simp add: me')
  from shown have c4: "py_round1 fl64 1 = 1" by (simp add: n')
  from recomm have c5: "py_int (fl64 (1 * of_int 400)) = 400" by (simp add: n' me')
  from calc mem agg c1 c2 c3 c4 c5 show ?thesis by blast
qed

subsection \<open>The order of the report\<close>




end
